theory Spec2Isabelle
  imports Complex_Main "HOL-Library.Log_Nat"
begin

section \<open>JavaScript numbers\<close>

text \<open>
  The functions of \<^verbatim>\<open>src/lib/utils.ts\<close>, \<^verbatim>\<open>audioConfig.ts\<close> and of the page component
  compute on JavaScript numbers, and several of their branches exist only for \<^verbatim>\<open>NaN\<close> and
  the infinities. A number is therefore a finite real or one of the three special values.
  The operators below are exact on finite operands (the value \<open>-0\<close> is \<open>Fin 0\<close>, the sign of
  zero is not part of the model). The rounding of a result to a double, with its overflow
  to an infinity, is the separate function \<open>js_round\<close>. It is applied in \<^verbatim>\<open>Math.pow\<close> and in
  the interpolations of \<^verbatim>\<open>updateAudio\<close>, whose results are compared with the bounds they are
  computed from, so that the last place decides; the other computations are kept in
  exact arithmetic.
\<close>

datatype jsnum = Fin real | PInf | NInf | NaN

fun js_isNaN :: "jsnum \<Rightarrow> bool" where
  "js_isNaN NaN = True"
| "js_isNaN _ = False"

fun js_isFinite :: "jsnum \<Rightarrow> bool" where
  "js_isFinite (Fin _) = True"
| "js_isFinite _ = False"

text \<open>Unary minus and \<^verbatim>\<open>Math.abs\<close>.\<close>

fun js_neg :: "jsnum \<Rightarrow> jsnum" where
  "js_neg (Fin a) = Fin (- a)"
| "js_neg PInf = NInf"
| "js_neg NInf = PInf"
| "js_neg NaN = NaN"

fun js_abs :: "jsnum \<Rightarrow> jsnum" where
  "js_abs (Fin a) = Fin \<bar>a\<bar>"
| "js_abs PInf = PInf"
| "js_abs NInf = PInf"
| "js_abs NaN = NaN"

text \<open>The operators \<^verbatim>\<open>+\<close>, \<^verbatim>\<open>-\<close>, \<^verbatim>\<open>*\<close> and \<^verbatim>\<open>/\<close> (IEEE 754 on the special values).\<close>

fun js_add :: "jsnum \<Rightarrow> jsnum \<Rightarrow> jsnum" where
  "js_add NaN _ = NaN"
| "js_add _ NaN = NaN"
| "js_add (Fin a) (Fin b) = Fin (a + b)"
| "js_add PInf NInf = NaN"
| "js_add NInf PInf = NaN"
| "js_add PInf _ = PInf"
| "js_add _ PInf = PInf"
| "js_add NInf _ = NInf"
| "js_add _ NInf = NInf"

definition js_sub :: "jsnum \<Rightarrow> jsnum \<Rightarrow> jsnum" where
  "js_sub a b = js_add a (js_neg b)"

fun js_mul :: "jsnum \<Rightarrow> jsnum \<Rightarrow> jsnum" where
  "js_mul NaN _ = NaN"
| "js_mul _ NaN = NaN"
| "js_mul (Fin a) (Fin b) = Fin (a * b)"
| "js_mul (Fin a) PInf = (if a = 0 then NaN else if 0 < a then PInf else NInf)"
| "js_mul (Fin a) NInf = (if a = 0 then NaN else if 0 < a then NInf else PInf)"
| "js_mul PInf (Fin b) = (if b = 0 then NaN else if 0 < b then PInf else NInf)"
| "js_mul NInf (Fin b) = (if b = 0 then NaN else if 0 < b then NInf else PInf)"
| "js_mul PInf PInf = PInf"
| "js_mul PInf NInf = NInf"
| "js_mul NInf PInf = NInf"
| "js_mul NInf NInf = PInf"

fun js_div :: "jsnum \<Rightarrow> jsnum \<Rightarrow> jsnum" where
  "js_div NaN _ = NaN"
| "js_div _ NaN = NaN"
| "js_div (Fin a) (Fin b) =
     (if b \<noteq> 0 then Fin (a / b)
      else if a = 0 then NaN else if 0 < a then PInf else NInf)"
| "js_div (Fin a) PInf = Fin 0"
| "js_div (Fin a) NInf = Fin 0"
| "js_div PInf (Fin b) = (if 0 \<le> b then PInf else NInf)"
| "js_div NInf (Fin b) = (if 0 \<le> b then NInf else PInf)"
| "js_div PInf _ = NaN"
| "js_div NInf _ = NaN"

text \<open>The comparisons: every comparison with \<^verbatim>\<open>NaN\<close> is false.\<close>

fun js_lt :: "jsnum \<Rightarrow> jsnum \<Rightarrow> bool" where
  "js_lt NaN _ = False"
| "js_lt _ NaN = False"
| "js_lt (Fin a) (Fin b) = (a < b)"
| "js_lt _ NInf = False"
| "js_lt PInf _ = False"
| "js_lt NInf _ = True"
| "js_lt _ PInf = True"

fun js_le :: "jsnum \<Rightarrow> jsnum \<Rightarrow> bool" where
  "js_le NaN _ = False"
| "js_le _ NaN = False"
| "js_le (Fin a) (Fin b) = (a \<le> b)"
| "js_le NInf _ = True"
| "js_le _ PInf = True"
| "js_le _ NInf = False"
| "js_le PInf _ = False"

definition js_gt :: "jsnum \<Rightarrow> jsnum \<Rightarrow> bool" where
  "js_gt a b = js_lt b a"

text \<open>\<^verbatim>\<open>Math.max\<close> and \<^verbatim>\<open>Math.min\<close> of two arguments: \<^verbatim>\<open>NaN\<close> as soon as one argument is.\<close>

definition js_max :: "jsnum \<Rightarrow> jsnum \<Rightarrow> jsnum" where
  "js_max a b = (if js_isNaN a \<or> js_isNaN b then NaN else if js_lt a b then b else a)"

definition js_min :: "jsnum \<Rightarrow> jsnum \<Rightarrow> jsnum" where
  "js_min a b = (if js_isNaN a \<or> js_isNaN b then NaN else if js_lt b a then b else a)"

text \<open>
  Rounding to a double (IEEE 754 binary64, round to nearest, ties to even). \<open>rne\<close> rounds a
  real to the nearest integer, ties to the even one. A nonzero real \<open>x\<close> with
  \<open>2^k \<le> |x| < 2^(k+1)\<close> lies in binade \<open>k\<close>, the integer part of its binary logarithm; it is
  computed from the bit length of the integer part of \<open>|x|\<close>, or of \<open>1/|x|\<close> rounded up when
  \<open>|x| < 1\<close>. The doubles around \<open>x\<close> are the multiples of \<open>2^(k-52)\<close> (53 significant bits),
  and of \<open>2^(-1074)\<close> in the subnormal range. \<open>fl x\<close> is the nearest such multiple, whatever
  the size of \<open>x\<close>; \<open>js_round\<close> turns a rounded magnitude of \<open>2^1024\<close> or more into an
  infinity.
\<close>

definition rne :: "real \<Rightarrow> int" where
  "rne q =
     (let f = \<lfloor>q\<rfloor>; r = q - of_int f
      in if r < 1/2 then f else if 1/2 < r then f + 1 else if even f then f else f + 1)"

definition binade :: "real \<Rightarrow> int" where
  "binade x =
     (if 1 \<le> \<bar>x\<bar> then bitlen \<lfloor>\<bar>x\<bar>\<rfloor> - 1 else - bitlen (\<lceil>1 / \<bar>x\<bar>\<rceil> - 1))"

definition ulpExponent :: "real \<Rightarrow> int" where
  "ulpExponent x = max (binade x - 52) (- 1074)"

definition fl :: "real \<Rightarrow> real" where
  "fl x = (if x = 0 then 0
           else of_int (rne (x / 2 powi ulpExponent x)) * 2 powi ulpExponent x)"

definition js_round :: "jsnum \<Rightarrow> jsnum" where
  "js_round v =
     (case v of
        Fin x \<Rightarrow> (if 2 ^ 1024 \<le> fl x then PInf else if fl x \<le> - (2 ^ 1024) then NInf else Fin (fl x))
      | _ \<Rightarrow> v)"

text \<open>The operators \<^verbatim>\<open>+\<close>, \<^verbatim>\<open>-\<close> and \<^verbatim>\<open>*\<close> with the rounding of their result.\<close>

definition add64 :: "jsnum \<Rightarrow> jsnum \<Rightarrow> jsnum" where
  "add64 a b = js_round (js_add a b)"

definition sub64 :: "jsnum \<Rightarrow> jsnum \<Rightarrow> jsnum" where
  "sub64 a b = js_round (js_sub a b)"

definition mul64 :: "jsnum \<Rightarrow> jsnum \<Rightarrow> jsnum" where
  "mul64 a b = js_round (js_mul a b)"

text \<open>
  \<^verbatim>\<open>Math.pow\<close>. \<open>pow_exact\<close> is the mathematical value, in the order of the case
  distinction of the language standard (Number::exponentiate): a \<^verbatim>\<open>NaN\<close> exponent, a zero
  exponent, a \<^verbatim>\<open>NaN\<close> base, the infinite exponents, the infinite bases, a zero base, a
  negative base. The standard leaves the finite results implementation-approximated;
  \<open>js_pow\<close> takes the correctly rounded value. The bounds proved below use of this only
  that rounding is monotone: a power of a number in [0, 1] with a positive exponent is in
  [0, 1].
\<close>

definition odd_integer :: "real \<Rightarrow> bool" where
  "odd_integer e = (of_int \<lfloor>e\<rfloor> = e \<and> odd \<lfloor>e\<rfloor>)"

fun pow_exact :: "jsnum \<Rightarrow> jsnum \<Rightarrow> jsnum" where
  "pow_exact b NaN = NaN"
| "pow_exact b (Fin e) =
     (if e = 0 then Fin 1
      else case b of
        NaN \<Rightarrow> NaN
      | PInf \<Rightarrow> (if 0 < e then PInf else Fin 0)
      | NInf \<Rightarrow> (if 0 < e then (if odd_integer e then NInf else PInf) else Fin 0)
      | Fin x \<Rightarrow>
          (if x = 0 then (if 0 < e then Fin 0 else PInf)
           else if 0 < x then Fin (x powr e)
           else if of_int \<lfloor>e\<rfloor> \<noteq> e then NaN
           else if odd \<lfloor>e\<rfloor> then Fin (- ((- x) powr e))
           else Fin ((- x) powr e)))"
| "pow_exact b PInf =
     (case b of
        NaN \<Rightarrow> NaN
      | Fin x \<Rightarrow> (if 1 < \<bar>x\<bar> then PInf else if \<bar>x\<bar> = 1 then NaN else Fin 0)
      | _ \<Rightarrow> PInf)"
| "pow_exact b NInf =
     (case b of
        NaN \<Rightarrow> NaN
      | Fin x \<Rightarrow> (if 1 < \<bar>x\<bar> then Fin 0 else if \<bar>x\<bar> = 1 then NaN else PInf)
      | _ \<Rightarrow> Fin 0)"

definition js_pow :: "jsnum \<Rightarrow> jsnum \<Rightarrow> jsnum" where
  "js_pow b e = js_round (pow_exact b e)"

section \<open>Tension velocity (utils.ts)\<close>

definition computeTensionVelocity :: "jsnum \<Rightarrow> jsnum \<Rightarrow> jsnum \<Rightarrow> jsnum" where
  "computeTensionVelocity currentTension previousTension deltaTime =
     (if js_le deltaTime (Fin 0) then Fin 0
      else js_div (js_sub currentTension previousTension) deltaTime)"

section \<open>Audio parameter mapping (audioConfig.ts)\<close>

text \<open>
  The configuration record, restricted to the numeric fields that \<^verbatim>\<open>updateAudio\<close> and the
  page read (the synthesizer and filter descriptions are strings handed to Tone.js).
  \<open>min_val\<close> and \<open>max_val\<close> are the fields \<^verbatim>\<open>min\<close> and \<^verbatim>\<open>max\<close>; the fields of \<^verbatim>\<open>curves\<close>
  carry the prefix \<open>curve_\<close>. A decimal literal of the default configuration is written as
  the number it denotes (the code holds the nearest double).
\<close>

record Range =
  min_val :: jsnum
  max_val :: jsnum

record Mappings =
  frequency :: Range
  filterCutoff :: Range
  volume :: Range
  pan :: Range
  modulationDepth :: Range
  distortion :: Range
  reverb :: Range
  pluckThreshold :: jsnum

record Curves =
  curve_volume :: jsnum
  curve_frequency :: jsnum
  curve_filterCutoff :: jsnum
  curve_distortion :: jsnum
  curve_reverb :: jsnum

record AudioConfig =
  mappings :: Mappings
  curves :: Curves
  rampTime :: jsnum

definition audioConfig :: AudioConfig where
  "audioConfig =
     \<lparr>mappings =
        \<lparr>frequency = \<lparr>min_val = Fin 220, max_val = Fin 880\<rparr>,
         filterCutoff = \<lparr>min_val = Fin 200, max_val = Fin 8000\<rparr>,
         volume = \<lparr>min_val = Fin (- 30), max_val = Fin 0\<rparr>,
         pan = \<lparr>min_val = Fin (- 1), max_val = Fin 1\<rparr>,
         modulationDepth = \<lparr>min_val = Fin 0, max_val = Fin 10\<rparr>,
         distortion = \<lparr>min_val = Fin 0, max_val = Fin (8/10)\<rparr>,
         reverb = \<lparr>min_val = Fin 0, max_val = Fin (1/2)\<rparr>,
         pluckThreshold = Fin (1/10)\<rparr>,
      curves =
        \<lparr>curve_volume = Fin (8/10), curve_frequency = Fin 1, curve_filterCutoff = Fin 2,
         curve_distortion = Fin (3/2), curve_reverb = Fin 1\<rparr>,
      rampTime = Fin (5/100)\<rparr>"

text \<open>The control values of \<^verbatim>\<open>utils.ts\<close> (\<^verbatim>\<open>isGrabbed.left\<close> and \<^verbatim>\<open>isGrabbed.right\<close> flattened).\<close>

record StringControls =
  tension :: jsnum
  leftStretch :: jsnum
  rightStretch :: jsnum
  angle :: jsnum
  tensionVelocity :: jsnum
  isGrabbed_left :: bool
  isGrabbed_right :: bool

definition applyCurve :: "jsnum \<Rightarrow> jsnum \<Rightarrow> jsnum" where
  "applyCurve v curve =
     (let clamped = js_max (Fin 0) (js_min (Fin 1) v)
      in if curve = Fin 1 then clamped else js_pow clamped curve)"

text \<open>
  The linear interpolation \<^verbatim>\<open>range.min + t * (range.max - range.min)\<close>, which
  \<^verbatim>\<open>updateAudio\<close> writes out once per parameter: a subtraction, a multiplication and an
  addition, each rounded.
\<close>

definition interpolate :: "Range \<Rightarrow> jsnum \<Rightarrow> jsnum" where
  "interpolate r t = add64 (min_val r) (mul64 t (sub64 (max_val r) (min_val r)))"

text \<open>
  The pitch computation of \<^verbatim>\<open>updateAudio\<close>, in three stages: the value of the variable
  \<^verbatim>\<open>frequency\<close> after the clamp to the configured and audible bounds, its value after the
  final validation, and the number that reaches \<^verbatim>\<open>synth.frequency\<close>.
\<close>

definition frequencyClamped :: "AudioConfig \<Rightarrow> StringControls \<Rightarrow> jsnum \<Rightarrow> jsnum \<Rightarrow> jsnum" where
  "frequencyClamped config controls midpointX canvasWidth =
     (let fr = frequency (mappings config);
          tensionForFrequency = applyCurve (tension controls) (curve_frequency (curves config));
          safeCanvasWidth =
            (if js_isNaN canvasWidth \<or> \<not> js_isFinite canvasWidth \<or> js_le canvasWidth (Fin 0)
             then Fin 1 else js_max (Fin 1) canvasWidth);
          safeMidpointX =
            (if js_isNaN midpointX \<or> \<not> js_isFinite midpointX then Fin 0 else midpointX);
          normalizedX = js_max (Fin 0) (js_min (Fin 1) (js_div safeMidpointX safeCanvasWidth));
          baseFrequencyMin = min_val fr;
          baseFrequencyMax =
            js_add (min_val fr) (js_mul (js_sub (max_val fr) (min_val fr)) (Fin (75/100)));
          baseFrequency =
            js_add baseFrequencyMin (js_mul normalizedX (js_sub baseFrequencyMax baseFrequencyMin));
          tensionFrequencyRange = js_sub (max_val fr) baseFrequencyMax;
          frequency0 = js_add baseFrequency (js_mul tensionForFrequency tensionFrequencyRange);
          minFrequency = js_max (Fin 20) (min_val fr);
          maxFrequency = js_min (Fin 20000) (max_val fr)
      in js_max minFrequency (js_min maxFrequency frequency0))"

definition frequencyValidated :: "AudioConfig \<Rightarrow> StringControls \<Rightarrow> jsnum \<Rightarrow> jsnum \<Rightarrow> jsnum" where
  "frequencyValidated config controls midpointX canvasWidth =
     (let frequency1 = frequencyClamped config controls midpointX canvasWidth
      in if js_isNaN frequency1 \<or> \<not> js_isFinite frequency1 \<or> js_le frequency1 (Fin 0)
         then min_val (frequency (mappings config)) else frequency1)"

definition frequencySent :: "AudioConfig \<Rightarrow> StringControls \<Rightarrow> jsnum \<Rightarrow> jsnum \<Rightarrow> jsnum" where
  "frequencySent config controls midpointX canvasWidth =
     (let frequency2 = frequencyValidated config controls midpointX canvasWidth
      in if \<not> js_isNaN frequency2 \<and> js_isFinite frequency2 \<and> js_gt frequency2 (Fin 0)
         then js_max (Fin 20) (js_min (Fin 20000) frequency2)
         else min_val (frequency (mappings config)))"

text \<open>
  \<^verbatim>\<open>updateAudio\<close> returns nothing: it hands one number per parameter to the Tone.js objects
  (\<^verbatim>\<open>rampTo\<close> or an assignment). The model returns these numbers. \<open>filterCutoffMapped\<close> is
  the filter cutoff before its clamp to 20..20000.
\<close>

record AudioParams =
  frequencyHz :: jsnum
  volumeDb :: jsnum
  filterCutoffHz :: jsnum
  distortionAmount :: jsnum
  reverbWet :: jsnum
  modulationDepthHz :: jsnum

definition filterCutoffMapped :: "AudioConfig \<Rightarrow> StringControls \<Rightarrow> jsnum" where
  "filterCutoffMapped config controls =
     interpolate (filterCutoff (mappings config))
       (applyCurve (tension controls) (curve_filterCutoff (curves config)))"

definition updateAudio :: "StringControls \<Rightarrow> jsnum \<Rightarrow> jsnum \<Rightarrow> AudioConfig \<Rightarrow> AudioParams" where
  "updateAudio controls midpointX canvasWidth config =
     (let m = mappings config; c = curves config;
          tensionForVolume = applyCurve (tension controls) (curve_volume c);
          tensionForDistortion = applyCurve (tension controls) (curve_distortion c);
          tensionForReverb = applyCurve (tension controls) (curve_reverb c)
      in \<lparr>frequencyHz = frequencySent config controls midpointX canvasWidth,
          volumeDb = interpolate (volume m) tensionForVolume,
          filterCutoffHz = js_max (Fin 20) (js_min (Fin 20000) (filterCutoffMapped config controls)),
          distortionAmount = interpolate (distortion m) tensionForDistortion,
          reverbWet = interpolate (reverb m) tensionForReverb,
          modulationDepthHz =
            js_max (Fin 0) (js_min (Fin 50) (interpolate (modulationDepth m) (js_abs (angle controls))))\<rparr>)"

section \<open>The audio update of the page component\<close>

text \<open>
  The effect of \<^verbatim>\<open>Home\<close> that runs on every new string state, from the gate on (the part
  before it computes \<open>controls\<close> and the midpoint). The calls into the synthesizer are
  recorded in order; \<open>TriggerAttackAt\<close> is the attack scheduled 10 ms ahead by the pluck
  retrigger. Tone.js is external: its calls are taken to return normally (the \<^verbatim>\<open>catch\<close>
  blocks of the source only log a warning).
\<close>

datatype synth_call = TriggerAttack | TriggerRelease | TriggerAttackAt

record AudioStep =
  isPlaying :: bool
  synthCalls :: "synth_call list"
  params :: "AudioParams option"

definition audioStep ::
  "AudioConfig \<Rightarrow> StringControls \<Rightarrow> bool \<Rightarrow> bool \<Rightarrow> jsnum \<Rightarrow> jsnum \<Rightarrow> bool \<Rightarrow> AudioStep" where
  "audioStep currentConfig controls leftGrabbed rightGrabbed midpointX canvasWidth playing =
     (let isGrabbed = (leftGrabbed \<or> rightGrabbed);
          isPluck = js_gt (js_abs (tensionVelocity controls)) (pluckThreshold (mappings currentConfig))
      in if js_gt (tension controls) (Fin (1/100)) \<and> isGrabbed then
           \<lparr>isPlaying = True,
            synthCalls =
              (if \<not> playing then [TriggerAttack] else []) @
              (if isPluck \<and> js_gt (tensionVelocity controls) (Fin 0)
               then [TriggerRelease, TriggerAttackAt] else []),
            params = Some (updateAudio controls midpointX canvasWidth currentConfig)\<rparr>
         else if playing then \<lparr>isPlaying = False, synthCalls = [TriggerRelease], params = None\<rparr>
         else \<lparr>isPlaying = playing, synthCalls = [], params = None\<rparr>)"

text \<open>
  Whether the synthesizer holds a note after a sequence of calls: an attack starts one, a
  release ends it (the interface of \<^verbatim>\<open>types/tone.d.ts\<close>).
\<close>

fun noteHeld :: "bool \<Rightarrow> synth_call list \<Rightarrow> bool" where
  "noteHeld held [] = held"
| "noteHeld held (TriggerAttack # cs) = noteHeld True cs"
| "noteHeld held (TriggerAttackAt # cs) = noteHeld True cs"
| "noteHeld held (TriggerRelease # cs) = noteHeld False cs"

section \<open>The string canvas (StringCanvas.tsx)\<close>

text \<open>
  Canvas coordinates are modelled as reals: the tracker delivers finite coordinates, and
  no branch of \<^verbatim>\<open>draw\<close> tests for a special value. The arithmetic on coordinates is exact,
  where the code rounds every operation to a double; at the size of a canvas the two differ
  by less than \<open>10^(-12)\<close> units, which matters only to a distance that sits on one of the
  thresholds it is compared with. \<open>px\<close> and \<open>py\<close> are the fields \<^verbatim>\<open>x\<close> and \<^verbatim>\<open>y\<close> of a point. A
  hand identity is the index of the hand in the array of the frame; \<^verbatim>\<open>Date.now()\<close> is an
  integer number of milliseconds.
\<close>

record Point =
  px :: real
  py :: real

record HandTip = Point +
  handId :: nat
  isPinched :: bool

record PinchState =
  state :: bool
  releaseTime :: "int option"

record CanvasState =
  leftEnd :: Point
  rightEnd :: Point
  leftGrabbed :: bool
  rightGrabbed :: bool
  leftHandId :: "nat option"
  rightHandId :: "nat option"
  pinchStates :: "nat \<rightharpoonup> PinchState"

definition GRAB_RADIUS :: real where "GRAB_RADIUS = 30"
definition RELEASE_HYSTERESIS :: real where "RELEASE_HYSTERESIS = 10"
definition EASING_FACTOR :: real where "EASING_FACTOR = 15/100"
definition PINCH_THRESHOLD :: real where "PINCH_THRESHOLD = 50"
definition PINCH_RELEASE_THRESHOLD :: real where "PINCH_RELEASE_THRESHOLD = 80"
definition PINCH_DEBOUNCE_TIME :: int where "PINCH_DEBOUNCE_TIME = 150"

text \<open>The video element (its two intrinsic dimensions) and the canvas.\<close>

record Video =
  videoWidth :: real
  videoHeight :: real

record Canvas =
  width :: real
  height :: real

definition leftAnchor :: "Canvas \<Rightarrow> Point" where
  "leftAnchor canvas = \<lparr>px = width canvas * (25/100), py = height canvas / 2\<rparr>"

definition rightAnchor :: "Canvas \<Rightarrow> Point" where
  "rightAnchor canvas = \<lparr>px = width canvas * (75/100), py = height canvas / 2\<rparr>"

text \<open>
  The state before the first frame: the effect places both endpoints on their anchors
  before it defines \<^verbatim>\<open>draw\<close>, so inside \<^verbatim>\<open>draw\<close> neither endpoint is ever \<^verbatim>\<open>null\<close>.
\<close>

definition initialState :: "Canvas \<Rightarrow> CanvasState" where
  "initialState canvas =
     \<lparr>leftEnd = leftAnchor canvas, rightEnd = rightAnchor canvas,
      leftGrabbed = False, rightGrabbed = False,
      leftHandId = None, rightHandId = None, pinchStates = Map.empty\<rparr>"

definition videoToCanvas :: "real \<Rightarrow> real \<Rightarrow> Video option \<Rightarrow> Canvas \<Rightarrow> real \<times> real" where
  "videoToCanvas vx vy video canvas =
     (case video of
        None \<Rightarrow> (vx, vy)
      | Some v \<Rightarrow>
          if videoWidth v = 0 \<or> videoHeight v = 0 then (vx, vy)
          else
            let (pixelX, pixelY) =
                  (if 1 < vx \<or> 1 < vy then (videoWidth v - vx, vy)
                   else ((1 - vx) * videoWidth v, vy * videoHeight v));
                scaleX = width canvas / videoWidth v;
                scaleY = height canvas / videoHeight v
            in (pixelX * scaleX, pixelY * scaleY))"

text \<open>
  A tracked hand in either of the two formats the source accepts: the array of landmarks
  (of which only the first two coordinates are read) and the annotations per finger.
  \<open>elemAt xs i\<close> is the array access \<^verbatim>\<open>xs[i]\<close>, undefined out of range.
\<close>

record HandAnnotations =
  thumb :: "(real \<times> real) list"
  indexFinger :: "(real \<times> real) list"

record Hand =
  landmarks :: "(real \<times> real) list option"
  annotations :: "HandAnnotations option"

definition elemAt :: "'a list \<Rightarrow> nat \<Rightarrow> 'a option" where
  "elemAt xs i = (if i < length xs then Some (xs ! i) else None)"

definition getPinchState :: "Hand \<Rightarrow> Video option \<Rightarrow> Canvas \<Rightarrow> bool \<Rightarrow> bool" where
  "getPinchState hand video canvas currentState =
     (if video = None then False
      else
        let tips =
              (case landmarks hand of
                 Some lm \<Rightarrow>
                   (case (elemAt lm 4, elemAt lm 8) of
                      (Some thumbTip, Some indexTip) \<Rightarrow> Some (thumbTip, indexTip)
                    | _ \<Rightarrow> None)
               | None \<Rightarrow>
                   (case annotations hand of
                      Some a \<Rightarrow>
                        (case (elemAt (thumb a) 3, elemAt (indexFinger a) 3) of
                           (Some thumbTip, Some indexTip) \<Rightarrow> Some (thumbTip, indexTip)
                         | _ \<Rightarrow> None)
                    | None \<Rightarrow> None))
        in case tips of
             None \<Rightarrow> False
           | Some ((vx1, vy1), (vx2, vy2)) \<Rightarrow>
               let (x1, y1) = videoToCanvas vx1 vy1 video canvas;
                   (x2, y2) = videoToCanvas vx2 vy2 video canvas;
                   pinchDistance = sqrt ((x2 - x1)\<^sup>2 + (y2 - y1)\<^sup>2)
               in if currentState then pinchDistance < PINCH_RELEASE_THRESHOLD
                  else pinchDistance < PINCH_THRESHOLD)"

definition distance :: "'a Point_scheme \<Rightarrow> 'b Point_scheme \<Rightarrow> real" where
  "distance a b = sqrt ((px a - px b)\<^sup>2 + (py a - py b)\<^sup>2)"

definition lerp :: "Point \<Rightarrow> Point \<Rightarrow> real \<Rightarrow> Point" where
  "lerp start target factor =
     \<lparr>px = px start + (px target - px start) * factor,
      py = py start + (py target - py start) * factor\<rparr>"

text \<open>The index fingertip that controls the string: annotations first, then landmark 8.\<close>

definition stringTip :: "Hand \<Rightarrow> (real \<times> real) option" where
  "stringTip hand =
     (case (case annotations hand of Some a \<Rightarrow> elemAt (indexFinger a) 3 | None \<Rightarrow> None) of
        Some tip \<Rightarrow> Some tip
      | None \<Rightarrow> (case landmarks hand of Some lm \<Rightarrow> elemAt lm 8 | None \<Rightarrow> None))"

text \<open>
  The pinch bookkeeping of one hand in one frame: the new record of the hand and its
  effective pinch, from the time, the raw pinch (after hysteresis), whether the hand
  controls a grabbed endpoint, and the record so far.
\<close>

definition updatePinch :: "int \<Rightarrow> bool \<Rightarrow> bool \<Rightarrow> PinchState \<Rightarrow> PinchState \<times> bool" where
  "updatePinch currentTime rawPinchState isControllingEndpoint pinchData =
     (let currentPinchState = state pinchData;
          rt =
            (if \<not> rawPinchState \<and> currentPinchState then
               (if releaseTime pinchData = None then Some currentTime else releaseTime pinchData)
             else if rawPinchState then None
             else releaseTime pinchData);
          debounced =
            (\<not> rawPinchState \<and> isControllingEndpoint \<and>
             (case rt of Some r \<Rightarrow> currentTime - r < PINCH_DEBOUNCE_TIME | None \<Rightarrow> False))
      in (\<lparr>state = rawPinchState, releaseTime = rt\<rparr>, rawPinchState \<or> debounced))"

text \<open>
  The body of \<^verbatim>\<open>hands.forEach\<close>: a hand without a fingertip is skipped; otherwise its pinch
  record is created if needed and updated, and its tip is appended to \<^verbatim>\<open>handTips\<close>.
  \<^verbatim>\<open>activeHandIds\<close> receives an identity exactly when \<^verbatim>\<open>handTips\<close> receives a tip, so it is
  the set of identities of \<^verbatim>\<open>handTips\<close>.
\<close>

definition processHand ::
  "int \<Rightarrow> Video option \<Rightarrow> Canvas \<Rightarrow> CanvasState \<Rightarrow> nat \<Rightarrow> Hand \<Rightarrow>
   (nat \<rightharpoonup> PinchState) \<times> HandTip list \<Rightarrow> (nat \<rightharpoonup> PinchState) \<times> HandTip list" where
  "processHand currentTime video canvas st index hand acc =
     (case stringTip hand of
        None \<Rightarrow> acc
      | Some (vx, vy) \<Rightarrow>
          let (ps, handTips) = acc;
              (x, y) = videoToCanvas vx vy video canvas;
              pinchData =
                (case ps index of None \<Rightarrow> \<lparr>state = False, releaseTime = None\<rparr> | Some d \<Rightarrow> d);
              rawPinchState = getPinchState hand video canvas (state pinchData);
              isControllingEndpoint =
                ((leftHandId st = Some index \<and> leftGrabbed st) \<or>
                 (rightHandId st = Some index \<and> rightGrabbed st));
              (pinchData', pinched) =
                updatePinch currentTime rawPinchState isControllingEndpoint pinchData
          in (ps(index \<mapsto> pinchData'),
              handTips @ [\<lparr>px = x, py = y, handId = index, isPinched = pinched\<rparr>]))"

fun collectHands ::
  "int \<Rightarrow> Video option \<Rightarrow> Canvas \<Rightarrow> CanvasState \<Rightarrow> nat \<Rightarrow> Hand list \<Rightarrow>
   (nat \<rightharpoonup> PinchState) \<times> HandTip list \<Rightarrow> (nat \<rightharpoonup> PinchState) \<times> HandTip list" where
  "collectHands currentTime video canvas st index [] acc = acc"
| "collectHands currentTime video canvas st index (hand # hands) acc =
     collectHands currentTime video canvas st (Suc index) hands
       (processHand currentTime video canvas st index hand acc)"

definition collect ::
  "int \<Rightarrow> Video option \<Rightarrow> Canvas \<Rightarrow> Hand list \<Rightarrow> CanvasState \<Rightarrow>
   (nat \<rightharpoonup> PinchState) \<times> HandTip list" where
  "collect currentTime video canvas hands st =
     (if hands \<noteq> [] \<and> video \<noteq> None
      then collectHands currentTime video canvas st 0 hands (pinchStates st, [])
      else (pinchStates st, []))"

text \<open>The tips of a frame, and the clean-up of the records and controllers of absent hands.\<close>

definition handTipsOf :: "int \<Rightarrow> Video option \<Rightarrow> Canvas \<Rightarrow> Hand list \<Rightarrow> CanvasState \<Rightarrow> HandTip list" where
  "handTipsOf currentTime video canvas hands st = snd (collect currentTime video canvas hands st)"

definition activeHandIds :: "HandTip list \<Rightarrow> nat set" where
  "activeHandIds handTips = set (map handId handTips)"

definition cleanUp :: "(nat \<rightharpoonup> PinchState) \<Rightarrow> HandTip list \<Rightarrow> CanvasState \<Rightarrow> CanvasState" where
  "cleanUp ps handTips st =
     (let st1 = st\<lparr>pinchStates := ps |` activeHandIds handTips\<rparr>;
          st2 =
            (case leftHandId st1 of
               Some h \<Rightarrow>
                 if h \<notin> activeHandIds handTips
                 then st1\<lparr>leftGrabbed := False, leftHandId := None\<rparr> else st1
             | None \<Rightarrow> st1)
      in case rightHandId st2 of
           Some h \<Rightarrow>
             if h \<notin> activeHandIds handTips
             then st2\<lparr>rightGrabbed := False, rightHandId := None\<rparr> else st2
         | None \<Rightarrow> st2)"

text \<open>
  The search for the closest tip: the accumulator is the pair of \<^verbatim>\<open>closestToLeft\<close> and
  \<^verbatim>\<open>minDistToLeft\<close>, with \<open>None\<close> for the start (\<^verbatim>\<open>null\<close> and \<^verbatim>\<open>Infinity\<close>), which every
  distance undercuts. A later tip replaces the current one only when strictly closer.
\<close>

fun closestFrom :: "(HandTip \<times> real) option \<Rightarrow> HandTip list \<Rightarrow> Point \<Rightarrow> (HandTip \<times> real) option" where
  "closestFrom acc [] p = acc"
| "closestFrom acc (tip # tips) p =
     (let dist = distance tip p
      in closestFrom
           (case acc of
              None \<Rightarrow> Some (tip, dist)
            | Some (c, minDist) \<Rightarrow> if dist < minDist then Some (tip, dist) else acc)
           tips p)"

definition tipPoint :: "HandTip \<Rightarrow> Point" where
  "tipPoint tip = \<lparr>px = px tip, py = py tip\<rparr>"

definition grabLeft :: "HandTip list \<Rightarrow> CanvasState \<Rightarrow> CanvasState" where
  "grabLeft handTips st =
     (if handTips = [] then st
      else case closestFrom None handTips (leftEnd st) of
        Some (closestToLeft, minDistToLeft) \<Rightarrow>
          if minDistToLeft \<le> GRAB_RADIUS \<and> isPinched closestToLeft then
            (if \<not> leftGrabbed st
             then st\<lparr>leftGrabbed := True, leftHandId := Some (handId closestToLeft)\<rparr>
             else st)\<lparr>leftEnd := tipPoint closestToLeft\<rparr>
          else if leftGrabbed st then
            (if \<not> isPinched closestToLeft \<or> GRAB_RADIUS + RELEASE_HYSTERESIS < minDistToLeft
             then st\<lparr>leftGrabbed := False, leftHandId := None\<rparr>
             else st\<lparr>leftEnd := tipPoint closestToLeft\<rparr>)
          else st
      | None \<Rightarrow> if leftGrabbed st then st\<lparr>leftGrabbed := False, leftHandId := None\<rparr> else st)"

definition grabRight :: "HandTip list \<Rightarrow> CanvasState \<Rightarrow> CanvasState" where
  "grabRight handTips st =
     (if handTips = [] then st
      else case closestFrom None handTips (rightEnd st) of
        Some (closestToRight, minDistToRight) \<Rightarrow>
          if minDistToRight \<le> GRAB_RADIUS \<and> isPinched closestToRight then
            (if \<not> rightGrabbed st
             then st\<lparr>rightGrabbed := True, rightHandId := Some (handId closestToRight)\<rparr>
             else st)\<lparr>rightEnd := tipPoint closestToRight\<rparr>
          else if rightGrabbed st then
            (if \<not> isPinched closestToRight \<or> GRAB_RADIUS + RELEASE_HYSTERESIS < minDistToRight
             then st\<lparr>rightGrabbed := False, rightHandId := None\<rparr>
             else st\<lparr>rightEnd := tipPoint closestToRight\<rparr>)
          else st
      | None \<Rightarrow> if rightGrabbed st then st\<lparr>rightGrabbed := False, rightHandId := None\<rparr> else st)"

definition easing :: "Canvas \<Rightarrow> CanvasState \<Rightarrow> CanvasState" where
  "easing canvas st =
     (let st1 =
            (if \<not> leftGrabbed st
             then st\<lparr>leftEnd := lerp (leftEnd st) (leftAnchor canvas) EASING_FACTOR\<rparr> else st)
      in if \<not> rightGrabbed st1
         then st1\<lparr>rightEnd := lerp (rightEnd st1) (rightAnchor canvas) EASING_FACTOR\<rparr> else st1)"

text \<open>
  The grab and release stage on given tips, and one frame of \<^verbatim>\<open>draw\<close> (the state after the
  frame; painting is left out).
\<close>

definition grabStage :: "HandTip list \<Rightarrow> CanvasState \<Rightarrow> CanvasState" where
  "grabStage handTips st = grabRight handTips (grabLeft handTips st)"

definition draw :: "Video option \<Rightarrow> Canvas \<Rightarrow> int \<Rightarrow> Hand list \<Rightarrow> CanvasState \<Rightarrow> CanvasState" where
  "draw video canvas currentTime hands st =
     (let (ps, handTips) = collect currentTime video canvas hands st
      in easing canvas (grabStage handTips (cleanUp ps handTips st)))"

section \<open>Vocabulary of the properties\<close>

text \<open>
  The two endpoints are handled by two copies of the same code; the properties are stated
  once, for either side.
\<close>

datatype side = LeftSide | RightSide

fun endOf :: "side \<Rightarrow> CanvasState \<Rightarrow> Point" where
  "endOf LeftSide st = leftEnd st"
| "endOf RightSide st = rightEnd st"

fun grabbedOf :: "side \<Rightarrow> CanvasState \<Rightarrow> bool" where
  "grabbedOf LeftSide st = leftGrabbed st"
| "grabbedOf RightSide st = rightGrabbed st"

fun handIdOf :: "side \<Rightarrow> CanvasState \<Rightarrow> nat option" where
  "handIdOf LeftSide st = leftHandId st"
| "handIdOf RightSide st = rightHandId st"

fun anchorOf :: "side \<Rightarrow> Canvas \<Rightarrow> Point" where
  "anchorOf LeftSide canvas = leftAnchor canvas"
| "anchorOf RightSide canvas = rightAnchor canvas"

text \<open>
  \<open>firstClosest tips p i\<close>: the tip at index \<open>i\<close> is a closest tip to \<open>p\<close> among all tips of
  the frame, and the first one in iteration order among equally close tips.
\<close>

definition firstClosest :: "HandTip list \<Rightarrow> Point \<Rightarrow> nat \<Rightarrow> bool" where
  "firstClosest tips p i =
     (i < length tips
      \<and> (\<forall>t \<in> set tips. distance (tips ! i) p \<le> distance t p)
      \<and> (\<forall>t \<in> set (take i tips). distance (tips ! i) p < distance t p))"

text \<open>The tip of the hand with a given identity, if that hand is observed in the frame.\<close>

definition tipOfHand :: "HandTip list \<Rightarrow> nat \<Rightarrow> HandTip option" where
  "tipOfHand tips h = find (\<lambda>t. handId t = h) tips"


text \<open>
  A session: frame \<open>n\<close> supplies the video element, the time and the tracked hands of the
  \<open>n\<close>-th call of \<^verbatim>\<open>draw\<close>; \<open>stateAt\<close> is the state after \<open>n\<close> calls.
\<close>

primrec stateAt :: "Canvas \<Rightarrow> (nat \<Rightarrow> Video option \<times> int \<times> Hand list) \<Rightarrow> CanvasState \<Rightarrow> nat \<Rightarrow> CanvasState" where
  "stateAt canvas frames st 0 = st"
| "stateAt canvas frames st (Suc n) =
     (case frames n of (video, currentTime, hands) \<Rightarrow>
        draw video canvas currentTime hands (stateAt canvas frames st n))"


text \<open>
  For the mapped parameters: a value within a configured range, a range with its bounds in
  order, and a curve exponent between 0.1 and 5.
\<close>

definition inRange :: "Range \<Rightarrow> jsnum \<Rightarrow> bool" where
  "inRange r v = (js_le (min_val r) v \<and> js_le v (max_val r))"

definition orderedRange :: "Range \<Rightarrow> bool" where
  "orderedRange r = js_le (min_val r) (max_val r)"

definition curveExponent :: "jsnum \<Rightarrow> bool" where
  "curveExponent e = (case e of Fin c \<Rightarrow> 1/10 \<le> c \<and> c \<le> 5 | _ \<Rightarrow> False)"

text \<open>
  The formula of the specification, \<open>value = min + clamp01(tension)^exponent * (max - min)\<close>,
  as a computation on doubles: \<open>curved t e\<close> is the curved tension (the exponent 1 is the
  identity, any other exponent a rounded power), \<open>mapped lo hi c\<close> the interpolation with
  its three rounded operations. \<open>isDouble x\<close>: the real \<open>x\<close> is a double. \<open>boundedRange r lo hi\<close>:
  the range \<open>r\<close> has the finite bounds \<open>lo \<le> hi\<close>, of magnitude at most \<open>2^1022\<close>, and \<open>lo\<close> is
  a double. \<open>roundedWithin lo hi v\<close>: \<open>v\<close> is at least \<open>lo\<close> and at most the value mapped from
  the curved tension 1, and at most \<open>hi\<close> when \<open>hi\<close> and \<open>hi - lo\<close> are doubles (the subtraction
  is then exact).
\<close>

definition isDouble :: "real \<Rightarrow> bool" where
  "isDouble x = (fl x = x)"

definition clamp01 :: "real \<Rightarrow> real" where
  "clamp01 t = max 0 (min 1 t)"

definition curved :: "real \<Rightarrow> real \<Rightarrow> real" where
  "curved t e = (if e = 1 then clamp01 t else fl (clamp01 t powr e))"

definition mapped :: "real \<Rightarrow> real \<Rightarrow> real \<Rightarrow> real" where
  "mapped lo hi c = fl (lo + fl (c * fl (hi - lo)))"

definition boundedRange :: "Range \<Rightarrow> real \<Rightarrow> real \<Rightarrow> bool" where
  "boundedRange r lo hi =
     (min_val r = Fin lo \<and> max_val r = Fin hi \<and> lo \<le> hi \<and> isDouble lo
      \<and> \<bar>lo\<bar> \<le> 2 ^ 1022 \<and> \<bar>hi\<bar> \<le> 2 ^ 1022)"

definition roundedWithin :: "real \<Rightarrow> real \<Rightarrow> real \<Rightarrow> bool" where
  "roundedWithin lo hi v =
     (lo \<le> v \<and> v \<le> mapped lo hi 1 \<and> (isDouble hi \<and> isDouble (hi - lo) \<longrightarrow> v \<le> hi))"



text \<open>
  For the audio update: the gate (meaningful tension and an endpoint grabbed), the pluck
  condition of the specification (a velocity above the threshold in magnitude, and
  positive), and the pluck itself, which the page performs as a release followed by the
  scheduled attack.
\<close>

definition gate :: "StringControls \<Rightarrow> bool \<Rightarrow> bool \<Rightarrow> bool" where
  "gate controls lg rg = (js_gt (tension controls) (Fin (1/100)) \<and> (lg \<or> rg))"



text \<open>
  For the pinch: the record of a hand as the frame reads it (a fresh record when the hand
  has none), whether a hand controls a grabbed endpoint, and what the frame computes for
  the hand at index \<open>i\<close> from the records \<open>ps\<close>: its new record and its effective pinch.
\<close>

definition pinchRecord :: "(nat \<rightharpoonup> PinchState) \<Rightarrow> nat \<Rightarrow> PinchState" where
  "pinchRecord ps i = (case ps i of None \<Rightarrow> \<lparr>state = False, releaseTime = None\<rparr> | Some d \<Rightarrow> d)"

definition controlsEndpoint :: "CanvasState \<Rightarrow> nat \<Rightarrow> bool" where
  "controlsEndpoint st i =
     ((leftHandId st = Some i \<and> leftGrabbed st) \<or> (rightHandId st = Some i \<and> rightGrabbed st))"

definition handOutcome ::
  "int \<Rightarrow> Video option \<Rightarrow> Canvas \<Rightarrow> CanvasState \<Rightarrow> nat \<Rightarrow> Hand \<Rightarrow> (nat \<rightharpoonup> PinchState) \<Rightarrow>
   PinchState \<times> bool" where
  "handOutcome now video canvas st i hand ps =
     updatePinch now (getPinchState hand video canvas (state (pinchRecord ps i)))
       (controlsEndpoint st i) (pinchRecord ps i)"

section \<open>Example inputs\<close>

text \<open>
  The page mounts the canvas at 800 by 600 and requests a 640 by 480 camera image. A
  tracked hand carries 21 landmarks in normalised image coordinates and the annotations
  derived from them; only the thumb tip (landmark 4) and the index fingertip (landmark 8)
  matter here, the others are placed at the origin. \<open>pinchingAt cx cy\<close> is a hand whose
  index fingertip maps to the canvas point \<open>(cx, cy)\<close> with the thumb tip 6 units below it;
  \<open>openAt cx cy\<close> has the thumb tip 150 units below. In every example below, each distance
  that a frame compares with a threshold (30 and 40 units for the endpoints, 50 and 80 for
  the pinch) is at least 4 units away from it, so that the rounding of the code cannot
  change the outcome of a comparison.
\<close>

definition canvas800 :: Canvas where
  "canvas800 = \<lparr>width = 800, height = 600\<rparr>"

definition webcam :: "Video option" where
  "webcam = Some \<lparr>videoWidth = 640, videoHeight = 480\<rparr>"

definition handWith :: "real \<times> real \<Rightarrow> real \<times> real \<Rightarrow> Hand" where
  "handWith thumbTip indexTip =
     \<lparr>landmarks =
        Some [(0, 0), (0, 0), (0, 0), (0, 0), thumbTip, (0, 0), (0, 0), (0, 0), indexTip,
              (0, 0), (0, 0), (0, 0), (0, 0), (0, 0), (0, 0), (0, 0), (0, 0), (0, 0), (0, 0),
              (0, 0), (0, 0)],
      annotations =
        Some \<lparr>thumb = [(0, 0), (0, 0), (0, 0), thumbTip],
              indexFinger = [(0, 0), (0, 0), (0, 0), indexTip]\<rparr>\<rparr>"

definition pinchingAt :: "real \<Rightarrow> real \<Rightarrow> Hand" where
  "pinchingAt cx cy = handWith (1 - cx / 800, (cy + 6) / 600) (1 - cx / 800, cy / 600)"

definition openAt :: "real \<Rightarrow> real \<Rightarrow> Hand" where
  "openAt cx cy = handWith (1 - cx / 800, (cy + 150) / 600) (1 - cx / 800, cy / 600)"

text \<open>The state after one frame in which hand 0 pinches 20 units right of the left anchor.\<close>

definition grabbedAt220 :: CanvasState where
  "grabbedAt220 =
     \<lparr>leftEnd = \<lparr>px = 220, py = 300\<rparr>, rightEnd = \<lparr>px = 600, py = 300\<rparr>,
      leftGrabbed = True, rightGrabbed = False, leftHandId = Some 0, rightHandId = None,
      pinchStates = [0 \<mapsto> \<lparr>state = True, releaseTime = None\<rparr>]\<rparr>"



definition noHands :: "nat \<Rightarrow> Video option \<times> int \<times> Hand list" where
  "noHands n = (webcam, 2000 + 16 * int n, [])"



text \<open>
  Controls with a given tension and tension velocity (left endpoint grabbed), and the
  default configuration with the minimum frequency replaced.
\<close>

definition controlsWith :: "jsnum \<Rightarrow> jsnum \<Rightarrow> StringControls" where
  "controlsWith t v =
     \<lparr>tension = t, leftStretch = t, rightStretch = Fin 0, angle = Fin 0,
      tensionVelocity = v, isGrabbed_left = True, isGrabbed_right = False\<rparr>"


text \<open>
  The default configuration with the range of one mapped parameter replaced, and four
  ranges. \<open>dbl003\<close> and \<open>dbl03\<close> are the doubles that the literals \<^verbatim>\<open>0.03\<close> and \<^verbatim>\<open>0.3\<close> denote,
  \<open>dblSpan\<close> is the double \<^verbatim>\<open>0.27\<close> and \<open>dbl03next\<close> the double after \<open>dbl03\<close>, which prints as
  \<^verbatim>\<open>0.30000000000000004\<close>; \<open>huge\<close> is the largest power of two among the doubles.
\<close>

definition withVolume :: "Range \<Rightarrow> AudioConfig" where
  "withVolume r = audioConfig\<lparr>mappings := (mappings audioConfig)\<lparr>volume := r\<rparr>\<rparr>"

definition withDistortion :: "Range \<Rightarrow> AudioConfig" where
  "withDistortion r = audioConfig\<lparr>mappings := (mappings audioConfig)\<lparr>distortion := r\<rparr>\<rparr>"

definition withFilterCutoff :: "Range \<Rightarrow> AudioConfig" where
  "withFilterCutoff r = audioConfig\<lparr>mappings := (mappings audioConfig)\<lparr>filterCutoff := r\<rparr>\<rparr>"

definition dbl003 :: real where "dbl003 = 1080863910568919 / 2 ^ 55"
definition dbl03 :: real where "dbl03 = 5404319552844595 / 2 ^ 54"
definition dblSpan :: real where "dblSpan = 4863887597560136 / 2 ^ 54"
definition dbl03next :: real where "dbl03next = 5404319552844596 / 2 ^ 54"
definition huge :: real where "huge = 2 ^ 1023"

definition lastPlaceRange :: Range where
  "lastPlaceRange = \<lparr>min_val = Fin dbl003, max_val = Fin dbl03\<rparr>"

definition lowRange :: Range where
  "lowRange = \<lparr>min_val = Fin 5, max_val = Fin 10\<rparr>"

definition unboundedRange :: Range where
  "unboundedRange = \<lparr>min_val = NInf, max_val = Fin 0\<rparr>"

definition hugeRange :: Range where
  "hugeRange = \<lparr>min_val = Fin (- huge), max_val = Fin huge\<rparr>"

section \<open>Auxiliary facts\<close>

subsection \<open>Square roots against bounds\<close>

lemma sqrt_less_iff: "0 \<le> y \<Longrightarrow> (sqrt x < y) = (x < y\<^sup>2)"
  by (metis real_sqrt_less_iff real_sqrt_abs abs_of_nonneg)

lemma sqrt_le_iff: "0 \<le> y \<Longrightarrow> (sqrt x \<le> y) = (x \<le> y\<^sup>2)"
  by (metis real_sqrt_le_iff real_sqrt_abs abs_of_nonneg)

lemma less_sqrt_iff: "0 \<le> y \<Longrightarrow> (y < sqrt x) = (y\<^sup>2 < x)"
  by (metis real_sqrt_less_iff real_sqrt_abs abs_of_nonneg)

lemma le_sqrt_iff: "0 \<le> y \<Longrightarrow> (y \<le> sqrt x) = (y\<^sup>2 \<le> x)"
  by (metis real_sqrt_le_iff real_sqrt_abs abs_of_nonneg)

subsection \<open>The closest tip\<close>

lemma firstClosest_nth:
  "firstClosest tips p i =
     (i < length tips
      \<and> (\<forall>j < length tips. distance (tips ! i) p \<le> distance (tips ! j) p)
      \<and> (\<forall>j < i. distance (tips ! i) p < distance (tips ! j) p))"
proof (cases "i < length tips")
  case True
  then have "(\<forall>t \<in> set (take i tips). distance (tips ! i) p < distance t p)
      = (\<forall>j < i. distance (tips ! i) p < distance (tips ! j) p)"
    by (simp add: all_set_conv_all_nth)
  then show ?thesis
    by (simp add: firstClosest_def all_set_conv_all_nth)
next
  case False
  then show ?thesis by (simp add: firstClosest_def)
qed

text \<open>
  The loop of \<open>closestFrom\<close>, started on a current best, either keeps it (no tip is
  strictly closer) or ends on the first of the closest tips of the list.
\<close>

lemma closestFrom_Some:
  "\<exists>c' d'. closestFrom (Some (c, d)) tips p = Some (c', d') \<and>
     ((c' = c \<and> d' = d \<and> (\<forall>j < length tips. d \<le> distance (tips ! j) p))
      \<or> (\<exists>i. firstClosest tips p i \<and> c' = tips ! i \<and> d' = distance (tips ! i) p \<and> d' < d))"
proof (induction tips arbitrary: c d)
  case Nil
  then show ?case by simp
next
  case (Cons tip tips)
  let ?dist = "distance tip p"
  show ?case
  proof (cases "?dist < d")
    case True
    from Cons.IH [of tip ?dist] obtain c' d' where
      r: "closestFrom (Some (tip, ?dist)) tips p = Some (c', d')" and
      alt: "(c' = tip \<and> d' = ?dist \<and> (\<forall>j < length tips. ?dist \<le> distance (tips ! j) p))
         \<or> (\<exists>i. firstClosest tips p i \<and> c' = tips ! i \<and> d' = distance (tips ! i) p \<and> d' < ?dist)"
      by blast
    from alt have "\<exists>i. firstClosest (tip # tips) p i \<and> c' = (tip # tips) ! i
         \<and> d' = distance ((tip # tips) ! i) p \<and> d' < d"
    proof
      assume a: "c' = tip \<and> d' = ?dist \<and> (\<forall>j < length tips. ?dist \<le> distance (tips ! j) p)"
      then have "firstClosest (tip # tips) p 0"
        by (auto simp: firstClosest_nth nth_Cons')
      with a True show ?thesis by (intro exI [of _ 0]) simp
    next
      assume "\<exists>i. firstClosest tips p i \<and> c' = tips ! i \<and> d' = distance (tips ! i) p \<and> d' < ?dist"
      then obtain i where
        i: "firstClosest tips p i" "c' = tips ! i" "d' = distance (tips ! i) p" "d' < ?dist"
        by blast
      then have "firstClosest (tip # tips) p (Suc i)"
        by (auto simp: firstClosest_nth nth_Cons' less_Suc_eq_0_disj)
      with i True show ?thesis by (intro exI [of _ "Suc i"]) simp
    qed
    with r True show ?thesis by (simp add: Let_def)
  next
    case False
    from Cons.IH [of c d] obtain c' d' where
      r: "closestFrom (Some (c, d)) tips p = Some (c', d')" and
      alt: "(c' = c \<and> d' = d \<and> (\<forall>j < length tips. d \<le> distance (tips ! j) p))
         \<or> (\<exists>i. firstClosest tips p i \<and> c' = tips ! i \<and> d' = distance (tips ! i) p \<and> d' < d)"
      by blast
    from alt have "(c' = c \<and> d' = d \<and> (\<forall>j < length (tip # tips). d \<le> distance ((tip # tips) ! j) p))
      \<or> (\<exists>i. firstClosest (tip # tips) p i \<and> c' = (tip # tips) ! i
         \<and> d' = distance ((tip # tips) ! i) p \<and> d' < d)"
    proof
      assume a: "c' = c \<and> d' = d \<and> (\<forall>j < length tips. d \<le> distance (tips ! j) p)"
      with False show ?thesis by (auto simp: nth_Cons' less_Suc_eq_0_disj)
    next
      assume "\<exists>i. firstClosest tips p i \<and> c' = tips ! i \<and> d' = distance (tips ! i) p \<and> d' < d"
      then obtain i where
        i: "firstClosest tips p i" "c' = tips ! i" "d' = distance (tips ! i) p" "d' < d"
        by blast
      with False have "firstClosest (tip # tips) p (Suc i)"
        by (auto simp: firstClosest_nth nth_Cons' less_Suc_eq_0_disj)
      with i show ?thesis by (intro disjI2 exI [of _ "Suc i"]) simp
    qed
    with r False show ?thesis by (simp add: Let_def)
  qed
qed

lemma closestFrom_None:
  assumes "tips \<noteq> []"
  shows "\<exists>i. firstClosest tips p i \<and> closestFrom None tips p = Some (tips ! i, distance (tips ! i) p)"
proof -
  obtain tip rest where t: "tips = tip # rest" using assms by (cases tips) auto
  from closestFrom_Some [of tip "distance tip p" rest p] obtain c' d' where
    r: "closestFrom (Some (tip, distance tip p)) rest p = Some (c', d')" and
    alt: "(c' = tip \<and> d' = distance tip p \<and> (\<forall>j < length rest. distance tip p \<le> distance (rest ! j) p))
       \<or> (\<exists>i. firstClosest rest p i \<and> c' = rest ! i \<and> d' = distance (rest ! i) p \<and> d' < distance tip p)"
    by blast
  from alt show ?thesis
  proof
    assume a: "c' = tip \<and> d' = distance tip p \<and> (\<forall>j < length rest. distance tip p \<le> distance (rest ! j) p)"
    then have "firstClosest tips p 0" by (auto simp: t firstClosest_nth nth_Cons')
    with a r show ?thesis by (intro exI [of _ 0]) (simp add: t Let_def)
  next
    assume "\<exists>i. firstClosest rest p i \<and> c' = rest ! i \<and> d' = distance (rest ! i) p \<and> d' < distance tip p"
    then obtain i where
      i: "firstClosest rest p i" "c' = rest ! i" "d' = distance (rest ! i) p" "d' < distance tip p"
      by blast
    then have "firstClosest tips p (Suc i)"
      by (auto simp: t firstClosest_nth nth_Cons' less_Suc_eq_0_disj)
    with i r show ?thesis by (intro exI [of _ "Suc i"]) (simp add: t Let_def)
  qed
qed

lemma firstClosest_unique:
  assumes "firstClosest tips p i" "firstClosest tips p j"
  shows "i = j"
proof (rule ccontr)
  assume "i \<noteq> j"
  then consider "i < j" | "j < i" by linarith
  then show False
  proof cases
    case 1
    with assms have "distance (tips ! j) p < distance (tips ! i) p"
      "distance (tips ! i) p \<le> distance (tips ! j) p"
      by (auto simp: firstClosest_nth)
    then show False by simp
  next
    case 2
    with assms have "distance (tips ! i) p < distance (tips ! j) p"
      "distance (tips ! j) p \<le> distance (tips ! i) p"
      by (auto simp: firstClosest_nth)
    then show False by simp
  qed
qed

lemma firstClosest_exists: "tips \<noteq> [] \<Longrightarrow> \<exists>i. firstClosest tips p i"
  using closestFrom_None by blast

lemma firstClosest_nonempty: "firstClosest tips p i \<Longrightarrow> tips \<noteq> []"
  by (auto simp: firstClosest_nth)


lemma closestFrom_firstClosest:
  assumes "firstClosest tips p i"
  shows "closestFrom None tips p = Some (tips ! i, distance (tips ! i) p)"
proof -
  from assms have "tips \<noteq> []" by (rule firstClosest_nonempty)
  from closestFrom_None [OF this, of p] obtain j where
    j: "firstClosest tips p j" "closestFrom None tips p = Some (tips ! j, distance (tips ! j) p)"
    by blast
  with assms have "i = j" by (simp add: firstClosest_unique)
  with j show ?thesis by simp
qed

subsection \<open>The stages of a frame, field by field\<close>

lemma cleanUp_ends:
  "leftEnd (cleanUp ps tips st) = leftEnd st" "rightEnd (cleanUp ps tips st) = rightEnd st"
  by (simp_all add: cleanUp_def Let_def split: option.splits)

lemma cleanUp_left:
  "leftGrabbed (cleanUp ps tips st) =
     (leftGrabbed st \<and> (\<forall>h. leftHandId st = Some h \<longrightarrow> h \<in> activeHandIds tips))"
  "leftHandId (cleanUp ps tips st) =
     (case leftHandId st of None \<Rightarrow> None | Some h \<Rightarrow> if h \<in> activeHandIds tips then Some h else None)"
  by (auto simp add: cleanUp_def Let_def split: option.splits)

lemma cleanUp_right:
  "rightGrabbed (cleanUp ps tips st) =
     (rightGrabbed st \<and> (\<forall>h. rightHandId st = Some h \<longrightarrow> h \<in> activeHandIds tips))"
  "rightHandId (cleanUp ps tips st) =
     (case rightHandId st of None \<Rightarrow> None | Some h \<Rightarrow> if h \<in> activeHandIds tips then Some h else None)"
  by (auto simp add: cleanUp_def Let_def split: option.splits)

lemma cleanUp_side:
  "endOf s (cleanUp ps tips st) = endOf s st"
  "grabbedOf s (cleanUp ps tips st) =
     (grabbedOf s st \<and> (\<forall>h. handIdOf s st = Some h \<longrightarrow> h \<in> activeHandIds tips))"
  "handIdOf s (cleanUp ps tips st) =
     (case handIdOf s st of None \<Rightarrow> None | Some h \<Rightarrow> if h \<in> activeHandIds tips then Some h else None)"
  by (cases s; simp add: cleanUp_ends cleanUp_left cleanUp_right)+

lemma grabLeft_right:
  "rightEnd (grabLeft tips st) = rightEnd st"
  "rightGrabbed (grabLeft tips st) = rightGrabbed st"
  "rightHandId (grabLeft tips st) = rightHandId st"
  by (simp_all add: grabLeft_def split: option.splits prod.splits)

lemma grabRight_left:
  "leftEnd (grabRight tips st) = leftEnd st"
  "leftGrabbed (grabRight tips st) = leftGrabbed st"
  "leftHandId (grabRight tips st) = leftHandId st"
  by (simp_all add: grabRight_def split: option.splits prod.splits)

lemma grabStage_empty: "grabStage [] st = st"
  by (simp add: grabStage_def grabLeft_def grabRight_def)

lemma grabLeft_closest:
  assumes "firstClosest tips (leftEnd st) i"
  shows "leftGrabbed (grabLeft tips st) =
           (isPinched (tips ! i) \<and>
            (distance (tips ! i) (leftEnd st) \<le> 30 \<or>
             leftGrabbed st \<and> distance (tips ! i) (leftEnd st) \<le> 40))"
    and "leftGrabbed (grabLeft tips st) \<Longrightarrow> leftEnd (grabLeft tips st) = tipPoint (tips ! i)"
    and "\<not> leftGrabbed (grabLeft tips st) \<Longrightarrow> leftEnd (grabLeft tips st) = leftEnd st"
    and "leftHandId (grabLeft tips st) =
           (if leftGrabbed (grabLeft tips st)
            then (if leftGrabbed st then leftHandId st else Some (handId (tips ! i)))
            else if leftGrabbed st then None else leftHandId st)"
  using closestFrom_firstClosest [OF assms] firstClosest_nonempty [OF assms]
  by (auto simp add: grabLeft_def GRAB_RADIUS_def RELEASE_HYSTERESIS_def split: if_splits)

lemma grabRight_closest:
  assumes "firstClosest tips (rightEnd st) i"
  shows "rightGrabbed (grabRight tips st) =
           (isPinched (tips ! i) \<and>
            (distance (tips ! i) (rightEnd st) \<le> 30 \<or>
             rightGrabbed st \<and> distance (tips ! i) (rightEnd st) \<le> 40))"
    and "rightGrabbed (grabRight tips st) \<Longrightarrow> rightEnd (grabRight tips st) = tipPoint (tips ! i)"
    and "\<not> rightGrabbed (grabRight tips st) \<Longrightarrow> rightEnd (grabRight tips st) = rightEnd st"
    and "rightHandId (grabRight tips st) =
           (if rightGrabbed (grabRight tips st)
            then (if rightGrabbed st then rightHandId st else Some (handId (tips ! i)))
            else if rightGrabbed st then None else rightHandId st)"
  using closestFrom_firstClosest [OF assms] firstClosest_nonempty [OF assms]
  by (auto simp add: grabRight_def GRAB_RADIUS_def RELEASE_HYSTERESIS_def split: if_splits)

lemma grabStage_closest:
  assumes "firstClosest tips (endOf s st) i"
  shows "grabbedOf s (grabStage tips st) =
           (isPinched (tips ! i) \<and>
            (distance (tips ! i) (endOf s st) \<le> 30 \<or>
             grabbedOf s st \<and> distance (tips ! i) (endOf s st) \<le> 40))"
    and "grabbedOf s (grabStage tips st) \<Longrightarrow> endOf s (grabStage tips st) = tipPoint (tips ! i)"
    and "\<not> grabbedOf s (grabStage tips st) \<Longrightarrow> endOf s (grabStage tips st) = endOf s st"
    and "handIdOf s (grabStage tips st) =
           (if grabbedOf s (grabStage tips st)
            then (if grabbedOf s st then handIdOf s st else Some (handId (tips ! i)))
            else if grabbedOf s st then None else handIdOf s st)"
proof -
  show "grabbedOf s (grabStage tips st) =
           (isPinched (tips ! i) \<and>
            (distance (tips ! i) (endOf s st) \<le> 30 \<or>
             grabbedOf s st \<and> distance (tips ! i) (endOf s st) \<le> 40))"
    using assms
    by (cases s) (simp_all add: grabStage_def grabLeft_right grabRight_left
        grabLeft_closest(1) grabRight_closest(1))
  show "grabbedOf s (grabStage tips st) \<Longrightarrow> endOf s (grabStage tips st) = tipPoint (tips ! i)"
    using assms
    by (cases s) (simp_all add: grabStage_def grabLeft_right grabRight_left
        grabLeft_closest(2) grabRight_closest(2))
  show "\<not> grabbedOf s (grabStage tips st) \<Longrightarrow> endOf s (grabStage tips st) = endOf s st"
    using assms
    by (cases s) (simp_all add: grabStage_def grabLeft_right grabRight_left
        grabLeft_closest(3) grabRight_closest(3))
  show "handIdOf s (grabStage tips st) =
           (if grabbedOf s (grabStage tips st)
            then (if grabbedOf s st then handIdOf s st else Some (handId (tips ! i)))
            else if grabbedOf s st then None else handIdOf s st)"
    using assms
    by (cases s) (simp_all only: grabStage_def endOf.simps grabbedOf.simps handIdOf.simps
          grabRight_left grabLeft_right grabLeft_closest(4) grabRight_closest(4))
qed

lemma easing_side:
  "grabbedOf s (easing c st) = grabbedOf s st"
  "handIdOf s (easing c st) = handIdOf s st"
  "endOf s (easing c st) =
     (if grabbedOf s st then endOf s st else lerp (endOf s st) (anchorOf s c) EASING_FACTOR)"
  by (cases s; simp add: easing_def Let_def)+

lemma draw_unfold:
  "draw video canvas now hands st =
     easing canvas (grabStage (handTipsOf now video canvas hands st)
       (cleanUp (fst (collect now video canvas hands st)) (handTipsOf now video canvas hands st) st))"
  by (simp add: draw_def handTipsOf_def split: prod.splits)

subsection \<open>One frame, seen from one endpoint\<close>

lemma draw_side_closest:
  assumes tips: "tips = handTipsOf now video canvas hands st"
      and fc: "firstClosest tips (endOf s st) i"
  shows "grabbedOf s (draw video canvas now hands st) =
           (isPinched (tips ! i) \<and>
            (distance (tips ! i) (endOf s st) \<le> 30 \<or>
             grabbedOf s st \<and> (\<forall>h. handIdOf s st = Some h \<longrightarrow> h \<in> activeHandIds tips)
               \<and> distance (tips ! i) (endOf s st) \<le> 40))"
    and "grabbedOf s (draw video canvas now hands st) \<Longrightarrow>
           endOf s (draw video canvas now hands st) = tipPoint (tips ! i)"
    and "grabbedOf s (draw video canvas now hands st) \<Longrightarrow>
           handIdOf s (draw video canvas now hands st) =
             (if grabbedOf s st \<and> (\<forall>h. handIdOf s st = Some h \<longrightarrow> h \<in> activeHandIds tips)
              then (case handIdOf s st of None \<Rightarrow> None | Some h \<Rightarrow> Some h)
              else Some (handId (tips ! i)))"
proof -
  define ps where "ps = fst (collect now video canvas hands st)"
  define st1 where "st1 = cleanUp ps tips st"
  have d: "draw video canvas now hands st = easing canvas (grabStage tips st1)"
    by (simp add: draw_unfold tips ps_def st1_def)
  have fc1: "firstClosest tips (endOf s st1) i"
    using fc by (simp add: st1_def cleanUp_side)
  note g = grabStage_closest [OF fc1]
  show "grabbedOf s (draw video canvas now hands st) =
           (isPinched (tips ! i) \<and>
            (distance (tips ! i) (endOf s st) \<le> 30 \<or>
             grabbedOf s st \<and> (\<forall>h. handIdOf s st = Some h \<longrightarrow> h \<in> activeHandIds tips)
               \<and> distance (tips ! i) (endOf s st) \<le> 40))"
    unfolding d easing_side g(1) by (simp add: st1_def cleanUp_side)
  show "grabbedOf s (draw video canvas now hands st) \<Longrightarrow>
           endOf s (draw video canvas now hands st) = tipPoint (tips ! i)"
    unfolding d easing_side using g(2) by simp
  show "grabbedOf s (draw video canvas now hands st) \<Longrightarrow>
           handIdOf s (draw video canvas now hands st) =
             (if grabbedOf s st \<and> (\<forall>h. handIdOf s st = Some h \<longrightarrow> h \<in> activeHandIds tips)
              then (case handIdOf s st of None \<Rightarrow> None | Some h \<Rightarrow> Some h)
              else Some (handId (tips ! i)))"
    unfolding d easing_side g(4) by (auto simp add: st1_def cleanUp_side split: option.splits)
qed

lemma draw_side_idle:
  assumes tips: "tips = handTipsOf now video canvas hands st"
      and idle: "\<not> grabbedOf s (draw video canvas now hands st)"
  shows "endOf s (draw video canvas now hands st) = lerp (endOf s st) (anchorOf s canvas) EASING_FACTOR"
    and "grabbedOf s st \<Longrightarrow> handIdOf s (draw video canvas now hands st) = None"
proof -
  define ps where "ps = fst (collect now video canvas hands st)"
  define st1 where "st1 = cleanUp ps tips st"
  have d: "draw video canvas now hands st = easing canvas (grabStage tips st1)"
    by (simp add: draw_unfold tips ps_def st1_def)
  have idle2: "\<not> grabbedOf s (grabStage tips st1)"
    using idle by (simp add: d easing_side)
  have e: "endOf s (grabStage tips st1) = endOf s st1"
  proof (cases "tips = []")
    case True then show ?thesis by (simp add: grabStage_empty)
  next
    case False
    then obtain i where "firstClosest tips (endOf s st1) i" using firstClosest_exists by blast
    from grabStage_closest(3) [OF this idle2] show ?thesis .
  qed
  show "endOf s (draw video canvas now hands st) = lerp (endOf s st) (anchorOf s canvas) EASING_FACTOR"
    using idle2 e d unfolding st1_def by (simp add: easing_side cleanUp_side)
  show "handIdOf s (draw video canvas now hands st) = None" if gr: "grabbedOf s st"
  proof (cases "tips = []")
    case True
    with idle2 have "\<not> grabbedOf s st1" by (simp add: grabStage_empty)
    with gr obtain h where "handIdOf s st = Some h" "h \<notin> activeHandIds tips"
      by (auto simp add: st1_def cleanUp_side)
    then show ?thesis using True by (simp add: d easing_side st1_def cleanUp_side grabStage_empty)
  next
    case False
    then obtain i where "firstClosest tips (endOf s st1) i" using firstClosest_exists by blast
    from grabStage_closest(4) [OF this] idle2 gr show ?thesis
      by (auto simp add: d easing_side st1_def cleanUp_side split: option.splits if_splits)
  qed
qed

lemma draw_no_tips:
  assumes "handTipsOf now video canvas hands st = []"
  shows "grabbedOf s (draw video canvas now hands st) = (grabbedOf s st \<and> handIdOf s st = None)"
  using assms
  by (auto simp add: draw_unfold easing_side cleanUp_side activeHandIds_def grabStage_empty)

subsection \<open>A grabbed endpoint has a controller\<close>

text \<open>
  The invariant of the data model: in every state a session reaches from the initial
  state, a grabbed endpoint has a controlling hand.
\<close>

lemma controller_step:
  assumes "grabbedOf s st \<longrightarrow> handIdOf s st \<noteq> None"
  shows "grabbedOf s (draw video canvas now hands st) \<longrightarrow>
           handIdOf s (draw video canvas now hands st) \<noteq> None"
proof (cases "handTipsOf now video canvas hands st = []")
  case True
  with assms show ?thesis by (auto simp add: draw_no_tips)
next
  case False
  then obtain i where "firstClosest (handTipsOf now video canvas hands st) (endOf s st) i"
    using firstClosest_exists by blast
  from draw_side_closest(3) [OF refl this] assms show ?thesis
    by (auto split: option.splits if_splits)
qed

lemma controller_invariant:
  "grabbedOf s (stateAt canvas frames (initialState canvas) n) \<longrightarrow>
     handIdOf s (stateAt canvas frames (initialState canvas) n) \<noteq> None"
proof (induction n)
  case 0
  show ?case by (cases s) (simp_all add: initialState_def)
next
  case (Suc n)
  obtain video now hands where f: "frames n = (video, now, hands)" by (cases "frames n")
  from controller_step [OF Suc] show ?case by (simp add: f)
qed

subsection \<open>Easing and distances\<close>

lemma distance_nonneg: "0 \<le> distance a b"
  by (simp add: distance_def)

lemma distance_lerp_target: "distance (lerp p a f) a = \<bar>1 - f\<bar> * distance p a"
proof -
  have "(px p + (px a - px p) * f - px a)\<^sup>2 + (py p + (py a - py p) * f - py a)\<^sup>2
      = (1 - f)\<^sup>2 * ((px p - px a)\<^sup>2 + (py p - py a)\<^sup>2)"
    by (simp add: power2_eq_square algebra_simps)
  then show ?thesis
    by (simp add: distance_def lerp_def real_sqrt_mult)
qed

lemma distance_lerp_start: "distance p (lerp p a f) = \<bar>f\<bar> * distance p a"
proof -
  have "(px p - (px p + (px a - px p) * f))\<^sup>2 + (py p - (py p + (py a - py p) * f))\<^sup>2
      = f\<^sup>2 * ((px p - px a)\<^sup>2 + (py p - py a)\<^sup>2)"
    by (simp add: power2_eq_square algebra_simps)
  then show ?thesis
    by (simp add: distance_def lerp_def real_sqrt_mult)
qed

lemma idle_session_distance:
  assumes "\<forall>n. \<not> grabbedOf s (stateAt canvas frames st (Suc n))"
  shows "distance (endOf s (stateAt canvas frames st n)) (anchorOf s canvas)
           = (85/100) ^ n * distance (endOf s st) (anchorOf s canvas)"
proof (induction n)
  case 0
  show ?case by simp
next
  case (Suc n)
  obtain video now hands where f: "frames n = (video, now, hands)" by (cases "frames n")
  let ?st = "stateAt canvas frames st n"
  have idle: "\<not> grabbedOf s (draw video canvas now hands ?st)"
    using assms [rule_format, of n] by (simp add: f)
  have "endOf s (draw video canvas now hands ?st) = lerp (endOf s ?st) (anchorOf s canvas) EASING_FACTOR"
    using draw_side_idle(1) [OF refl idle] .
  then show ?case
    using Suc.IH by (simp add: f distance_lerp_target EASING_FACTOR_def)
qed

subsection \<open>The pinch bookkeeping\<close>

lemma processHand_tip:
  assumes "stringTip hand = Some (vx, vy)"
  shows "processHand now video canvas st i hand (ps, tips) =
    (let pd = (case ps i of None \<Rightarrow> \<lparr>state = False, releaseTime = None\<rparr> | Some d \<Rightarrow> d);
         raw = getPinchState hand video canvas (state pd);
         ctl = ((leftHandId st = Some i \<and> leftGrabbed st) \<or> (rightHandId st = Some i \<and> rightGrabbed st));
         r = updatePinch now raw ctl pd
     in (ps(i \<mapsto> fst r),
         tips @ [\<lparr>px = fst (videoToCanvas vx vy video canvas),
                  py = snd (videoToCanvas vx vy video canvas),
                  handId = i, isPinched = snd r\<rparr>]))"
  using assms by (simp add: processHand_def Let_def split: prod.splits)

lemma updatePinch_state: "state (fst (updatePinch now raw c pd)) = raw"
  by (simp add: updatePinch_def Let_def)

lemma updatePinch_releaseTime:
  "releaseTime (fst (updatePinch now raw c pd)) =
     (if raw then None
      else if state pd \<and> releaseTime pd = None then Some now
      else releaseTime pd)"
  by (simp add: updatePinch_def Let_def)

lemma updatePinch_pinched:
  "snd (updatePinch now raw c pd) =
     (raw \<or> (c \<and> (\<exists>r. releaseTime (fst (updatePinch now raw c pd)) = Some r \<and> now - r < 150)))"
  by (auto simp add: updatePinch_def Let_def PINCH_DEBOUNCE_TIME_def split: option.splits)

text \<open>
  The loop over the hands of a frame: the hand at index \<open>k + j\<close> reads and writes only its
  own record, and its tip is the first tip with its identity among the appended ones.
\<close>

lemma processHand_none:
  "stringTip hand = None \<Longrightarrow> processHand now video canvas st i hand acc = acc"
  by (simp add: processHand_def)

lemma processHand_some:
  assumes "stringTip hand = Some (vx, vy)"
  shows "processHand now video canvas st i hand (ps, tips) =
    (ps(i \<mapsto> fst (handOutcome now video canvas st i hand ps)),
     tips @ [\<lparr>px = fst (videoToCanvas vx vy video canvas), py = snd (videoToCanvas vx vy video canvas),
              handId = i, isPinched = snd (handOutcome now video canvas st i hand ps)\<rparr>])"
  using assms
  by (simp add: processHand_tip Let_def handOutcome_def pinchRecord_def controlsEndpoint_def)

lemma handOutcome_cong:
  "ps i = ps' i \<Longrightarrow> handOutcome now video canvas st i hand ps = handOutcome now video canvas st i hand ps'"
  by (simp add: handOutcome_def pinchRecord_def)

lemma collectHands_spec:
  "\<exists>new. snd (collectHands now video canvas st k hands (ps, tips)) = tips @ new
     \<and> (\<forall>t \<in> set new. k \<le> handId t)
     \<and> (\<forall>m < k. fst (collectHands now video canvas st k hands (ps, tips)) m = ps m)
     \<and> (\<forall>j < length hands. \<forall>vx vy. stringTip (hands ! j) = Some (vx, vy) \<longrightarrow>
           fst (collectHands now video canvas st k hands (ps, tips)) (k + j)
             = Some (fst (handOutcome now video canvas st (k + j) (hands ! j) ps))
           \<and> find (\<lambda>t. handId t = k + j) new
             = Some \<lparr>px = fst (videoToCanvas vx vy video canvas), py = snd (videoToCanvas vx vy video canvas),
                     handId = k + j,
                     isPinched = snd (handOutcome now video canvas st (k + j) (hands ! j) ps)\<rparr>)"
proof (induction hands arbitrary: k ps tips)
  case Nil
  show ?case by simp
next
  case (Cons hand hands)
  obtain ps1 tips1 where p1: "processHand now video canvas st k hand (ps, tips) = (ps1, tips1)"
    by (cases "processHand now video canvas st k hand (ps, tips)")
  have res: "collectHands now video canvas st k (hand # hands) (ps, tips)
      = collectHands now video canvas st (Suc k) hands (ps1, tips1)"
    by (simp add: p1)
  from Cons.IH [of "Suc k" ps1 tips1] obtain new where
    n1: "snd (collectHands now video canvas st (Suc k) hands (ps1, tips1)) = tips1 @ new" and
    n2: "\<forall>t \<in> set new. Suc k \<le> handId t" and
    n3: "\<forall>m < Suc k. fst (collectHands now video canvas st (Suc k) hands (ps1, tips1)) m = ps1 m" and
    n4: "\<forall>j < length hands. \<forall>vx vy. stringTip (hands ! j) = Some (vx, vy) \<longrightarrow>
           fst (collectHands now video canvas st (Suc k) hands (ps1, tips1)) (Suc k + j)
             = Some (fst (handOutcome now video canvas st (Suc k + j) (hands ! j) ps1))
           \<and> find (\<lambda>t. handId t = Suc k + j) new
             = Some \<lparr>px = fst (videoToCanvas vx vy video canvas), py = snd (videoToCanvas vx vy video canvas),
                     handId = Suc k + j,
                     isPinched = snd (handOutcome now video canvas st (Suc k + j) (hands ! j) ps1)\<rparr>"
    by blast
  have other: "ps1 m = ps m" if "m \<noteq> k" for m
    using p1 that by (cases "stringTip hand") (auto simp: processHand_none processHand_some)
  have later: "handOutcome now video canvas st (Suc k + j) h ps1 = handOutcome now video canvas st (Suc k + j) h ps"
    for j h by (rule handOutcome_cong) (simp add: other)
  show ?case
  proof (cases "stringTip hand")
    case None
    then have e: "ps1 = ps" "tips1 = tips" using p1 by (simp_all add: processHand_none)
    show ?thesis
    proof (intro exI [of _ new] conjI allI impI ballI)
      show "snd (collectHands now video canvas st k (hand # hands) (ps, tips)) = tips @ new"
        using n1 e by (simp add: p1)
      show "k \<le> handId t" if "t \<in> set new" for t using n2 that by force
      show "fst (collectHands now video canvas st k (hand # hands) (ps, tips)) m = ps m" if "m < k" for m
        using n3 that e by (simp add: p1)
      fix j vx vy
      assume j: "j < length (hand # hands)" and s: "stringTip ((hand # hands) ! j) = Some (vx, vy)"
      from s None obtain j' where j': "j = Suc j'" by (cases j) auto
      with j s n4 have
        "fst (collectHands now video canvas st (Suc k) hands (ps1, tips1)) (Suc k + j')
             = Some (fst (handOutcome now video canvas st (Suc k + j') (hands ! j') ps1))
           \<and> find (\<lambda>t. handId t = Suc k + j') new
             = Some \<lparr>px = fst (videoToCanvas vx vy video canvas), py = snd (videoToCanvas vx vy video canvas),
                     handId = Suc k + j',
                     isPinched = snd (handOutcome now video canvas st (Suc k + j') (hands ! j') ps1)\<rparr>"
        by simp
      then show "fst (collectHands now video canvas st k (hand # hands) (ps, tips)) (k + j)
             = Some (fst (handOutcome now video canvas st (k + j) ((hand # hands) ! j) ps))"
        and "find (\<lambda>t. handId t = k + j) new
             = Some \<lparr>px = fst (videoToCanvas vx vy video canvas), py = snd (videoToCanvas vx vy video canvas),
                     handId = k + j,
                     isPinched = snd (handOutcome now video canvas st (k + j) ((hand # hands) ! j) ps)\<rparr>"
        using later [of j'] by (simp_all add: p1 j')
    qed
  next
    case (Some tip)
    obtain wx wy where tip: "tip = (wx, wy)" by (cases tip)
    define t0 :: HandTip where "t0 = \<lparr>px = fst (videoToCanvas wx wy video canvas),
        py = snd (videoToCanvas wx wy video canvas), handId = k,
        isPinched = snd (handOutcome now video canvas st k hand ps)\<rparr>"
    have e: "ps1 = ps(k \<mapsto> fst (handOutcome now video canvas st k hand ps))" "tips1 = tips @ [t0]"
      using p1 Some tip by (simp_all add: processHand_some t0_def)
    have id0: "handId t0 = k" by (simp add: t0_def)
    show ?thesis
    proof (intro exI [of _ "t0 # new"] conjI allI impI ballI)
      show "snd (collectHands now video canvas st k (hand # hands) (ps, tips)) = tips @ t0 # new"
        using n1 e by (simp add: p1)
      show "k \<le> handId t" if "t \<in> set (t0 # new)" for t using n2 that id0 by force
      show "fst (collectHands now video canvas st k (hand # hands) (ps, tips)) m = ps m" if "m < k" for m
        using n3 that other [of m] by (simp add: p1)
      fix j vx vy
      assume j: "j < length (hand # hands)" and s: "stringTip ((hand # hands) ! j) = Some (vx, vy)"
      show "fst (collectHands now video canvas st k (hand # hands) (ps, tips)) (k + j)
             = Some (fst (handOutcome now video canvas st (k + j) ((hand # hands) ! j) ps))"
      proof (cases j)
        case 0
        with n3 e show ?thesis by (simp add: p1)
      next
        case (Suc j')
        with j s n4 later [of j'] show ?thesis by (simp add: p1)
      qed
      show "find (\<lambda>t. handId t = k + j) (t0 # new)
             = Some \<lparr>px = fst (videoToCanvas vx vy video canvas), py = snd (videoToCanvas vx vy video canvas),
                     handId = k + j,
                     isPinched = snd (handOutcome now video canvas st (k + j) ((hand # hands) ! j) ps)\<rparr>"
      proof (cases j)
        case 0
        with s Some tip show ?thesis by (simp add: t0_def)
      next
        case (Suc j')
        with j s n4 later [of j'] id0 show ?thesis by simp
      qed
    qed
  qed
qed

lemma pinchStates_grabStage: "pinchStates (grabStage tips st) = pinchStates st"
  by (simp add: grabStage_def grabLeft_def grabRight_def split: option.splits prod.splits)

lemma pinchStates_easing: "pinchStates (easing c st) = pinchStates st"
  by (simp add: easing_def Let_def)

lemma pinchStates_cleanUp: "pinchStates (cleanUp ps tips st) = ps |` activeHandIds tips"
  by (simp add: cleanUp_def Let_def split: option.splits)

lemma pinchStates_draw:
  "pinchStates (draw video canvas now hands st)
     = fst (collect now video canvas hands st) |` activeHandIds (handTipsOf now video canvas hands st)"
  by (simp add: draw_unfold pinchStates_easing pinchStates_grabStage pinchStates_cleanUp)

lemma find_Some_mem: "find P xs = Some x \<Longrightarrow> x \<in> set xs \<and> P x"
  by (induction xs) (auto split: if_splits)

lemma handOutcome_props:
  assumes "r = handOutcome now video canvas st i hand ps"
      and "pd = pinchRecord ps i" and "raw = getPinchState hand video canvas (state pd)"
  shows "state (fst r) = raw"
    and "releaseTime (fst r) = (if raw then None
            else if state pd \<and> releaseTime pd = None then Some now else releaseTime pd)"
    and "snd r = (raw \<or> (controlsEndpoint st i \<and> (\<exists>q. releaseTime (fst r) = Some q \<and> now - q < 150)))"
  using assms updatePinch_pinched [of now raw "controlsEndpoint st i" pd]
  by (simp_all add: handOutcome_def updatePinch_state updatePinch_releaseTime)

subsection \<open>Evaluating the example sessions\<close>

lemmas eval_defs = collect_def processHand_def stringTip_def getPinchState_def elemAt_def
  videoToCanvas_def updatePinch_def handWith_def pinchingAt_def openAt_def canvas800_def webcam_def
  PINCH_THRESHOLD_def PINCH_RELEASE_THRESHOLD_def PINCH_DEBOUNCE_TIME_def Let_def
  sqrt_less_iff sqrt_le_iff less_sqrt_iff le_sqrt_iff



lemma grabbedAt220_fields:
  "leftEnd grabbedAt220 = \<lparr>px = 220, py = 300\<rparr>" "rightEnd grabbedAt220 = \<lparr>px = 600, py = 300\<rparr>"
  "leftGrabbed grabbedAt220" "\<not> rightGrabbed grabbedAt220"
  "leftHandId grabbedAt220 = Some 0" "rightHandId grabbedAt220 = None"
  "pinchStates grabbedAt220 = [0 \<mapsto> \<lparr>state = True, releaseTime = None\<rparr>]"
  by (simp_all add: grabbedAt220_def)












lemma noHands_tips: "handTipsOf now video canvas [] st = []"
  by (simp add: handTipsOf_def collect_def)

lemma noHands_Suc:
  "stateAt canvas noHands st (Suc n)
     = draw webcam canvas (2000 + 16 * int n) [] (stateAt canvas noHands st n)"
  by (simp add: noHands_def)

lemma noHands_idle:
  assumes "\<not> (grabbedOf s st \<and> handIdOf s st = None)"
  shows "\<not> grabbedOf s (stateAt canvas noHands st (Suc n))"
proof (induction n)
  case 0
  have "stateAt canvas noHands st 0 = st" by simp
  with assms show ?case
    unfolding noHands_Suc draw_no_tips [OF noHands_tips] by simp
next
  case (Suc n)
  show ?case
    unfolding noHands_Suc [of _ _ "Suc n"] draw_no_tips [OF noHands_tips]
    using Suc by simp
qed

subsection \<open>Rounding to a double\<close>

text \<open>Rounding to the nearest integer fixes the integers, is monotone and odd.\<close>

lemma rne_of_int: "rne (of_int n) = n"
  by (simp add: rne_def)

lemma rne_bounds: "\<lfloor>q\<rfloor> \<le> rne q \<and> rne q \<le> \<lfloor>q\<rfloor> + 1"
  by (simp add: rne_def Let_def)

lemma rne_mono: "q \<le> q' \<Longrightarrow> rne q \<le> rne q'"
proof -
  assume le: "q \<le> q'"
  have fm: "\<lfloor>q\<rfloor> \<le> \<lfloor>q'\<rfloor>" using le by (rule floor_mono)
  show ?thesis
  proof (cases "\<lfloor>q\<rfloor> = \<lfloor>q'\<rfloor>")
    case True
    then have "q - of_int \<lfloor>q\<rfloor> \<le> q' - of_int \<lfloor>q'\<rfloor>" using le by simp
    with True show ?thesis by (auto simp add: rne_def Let_def)
  next
    case False
    with fm have "\<lfloor>q\<rfloor> + 1 \<le> \<lfloor>q'\<rfloor>" by simp
    with rne_bounds [of q] rne_bounds [of q'] show ?thesis by linarith
  qed
qed

lemma rne_minus: "rne (- q) = - rne q"
proof (cases "q = of_int \<lfloor>q\<rfloor>")
  case True
  then obtain n where "q = of_int n" by metis
  then have "- q = of_int (- n)" by simp
  with \<open>q = of_int n\<close> show ?thesis by (simp only: rne_of_int)
next
  case False
  then have fm: "\<lfloor>- q\<rfloor> = - \<lfloor>q\<rfloor> - 1"
    by (metis Ints_of_int floor_of_int floor_minus ceiling_altdef of_int_floor_cancel add.commute diff_minus_eq_add minus_diff_eq uminus_add_conv_diff)
  show ?thesis
    unfolding rne_def Let_def fm by (auto simp: algebra_simps)
qed


lemma powi_quotient_int:
  assumes "e \<le> b"
  shows "(2::real) powi b / 2 powi e = of_int (2 ^ nat (b - e))"
proof -
  have "(2::real) powi b / 2 powi e = 2 powi (b - e)"
    by (simp add: power_int_diff)
  also have "\<dots> = 2 ^ nat (b - e)"
    using assms by (simp add: power_int_def)
  finally show ?thesis by simp
qed

lemma round_le_power:
  assumes "e \<le> b" and "x \<le> 2 powi b"
  shows "of_int (rne (x / 2 powi e)) * 2 powi e \<le> (2::real) powi b"
proof -
  have pos: "(0::real) < 2 powi e" by simp
  have "x / 2 powi e \<le> 2 powi b / 2 powi e"
    using assms(2) pos by (simp add: divide_right_mono)
  then have "x / 2 powi e \<le> of_int (2 ^ nat (b - e))"
    using powi_quotient_int [OF assms(1)] by simp
  then have "rne (x / 2 powi e) \<le> 2 ^ nat (b - e)"
    using rne_mono rne_of_int by metis
  then have "(of_int (rne (x / 2 powi e)) :: real) \<le> of_int (2 ^ nat (b - e))"
    by (simp only: of_int_le_iff)
  then have "of_int (rne (x / 2 powi e)) \<le> (2::real) powi b / 2 powi e"
    using powi_quotient_int [OF assms(1)] by simp
  then show ?thesis using pos by (simp add: pos_le_divide_eq)
qed

lemma round_ge_power:
  assumes "e \<le> b" and "2 powi b \<le> x"
  shows "(2::real) powi b \<le> of_int (rne (x / 2 powi e)) * 2 powi e"
proof -
  have pos: "(0::real) < 2 powi e" by simp
  have "2 powi b / 2 powi e \<le> x / 2 powi e"
    using assms(2) pos by (simp add: divide_right_mono)
  then have "of_int (2 ^ nat (b - e)) \<le> x / 2 powi e"
    using powi_quotient_int [OF assms(1)] by simp
  then have "2 ^ nat (b - e) \<le> rne (x / 2 powi e)"
    using rne_mono rne_of_int by metis
  then have "(of_int (2 ^ nat (b - e)) :: real) \<le> of_int (rne (x / 2 powi e))"
    by (simp only: of_int_le_iff)
  then have "(2::real) powi b / 2 powi e \<le> of_int (rne (x / 2 powi e))"
    using powi_quotient_int [OF assms(1)] by simp
  then show ?thesis using pos by (simp add: pos_divide_le_eq)
qed

lemma powi_neg: "0 \<le> k \<Longrightarrow> (2::real) powi (- k) = 1 / 2 ^ nat k"
  by (cases "k = 0") (simp_all add: power_int_def power_one_over)

lemma binade_bounds:
  assumes "x \<noteq> 0"
  shows "2 powi binade x \<le> \<bar>x\<bar>" and "\<bar>x\<bar> < 2 powi (binade x + 1)"
proof -
  have "2 powi binade x \<le> \<bar>x\<bar> \<and> \<bar>x\<bar> < 2 powi (binade x + 1)"
  proof (cases "1 \<le> \<bar>x\<bar>")
    case True
    define n where "n = \<lfloor>\<bar>x\<bar>\<rfloor>"
    have n1: "1 \<le> n" using True by (simp add: n_def le_floor_iff)
    then have n0: "0 < n" by simp
    have b1: "1 \<le> bitlen n" using n0 by (simp add: bitlen_alt_def)
    note bb = bitlen_bounds [OF n0]
    have be: "binade x = bitlen n - 1" using True by (simp add: binade_def n_def)
    have p1: "(2::real) powi (bitlen n - 1) = of_int (2 ^ nat (bitlen n - 1))"
      using b1 by (simp add: power_int_def)
    have p2: "(2::real) powi (bitlen n - 1 + 1) = of_int (2 ^ nat (bitlen n))"
      using b1 by (simp add: power_int_def)
    have "(of_int (2 ^ nat (bitlen n - 1)) :: real) \<le> of_int n"
      using bb by (simp only: of_int_le_iff)
    moreover have "of_int n \<le> \<bar>x\<bar>" by (simp add: n_def)
    ultimately have lo: "2 powi (bitlen n - 1) \<le> \<bar>x\<bar>" unfolding p1 by linarith
    have "n + 1 \<le> 2 ^ nat (bitlen n)" using bb by simp
    then have "(of_int (n + 1) :: real) \<le> of_int (2 ^ nat (bitlen n))"
      by (simp only: of_int_le_iff)
    moreover have "\<bar>x\<bar> < of_int (n + 1)" by (simp add: n_def)
    ultimately have hi: "\<bar>x\<bar> < 2 powi (bitlen n - 1 + 1)" unfolding p2 by linarith
    from lo hi show ?thesis unfolding be by simp
  next
    case False
    define y where "y = 1 / \<bar>x\<bar>"
    define n where "n = \<lceil>y\<rceil> - 1"
    have xp: "0 < \<bar>x\<bar>" using assms by simp
    have y1: "1 < y" using False xp by (simp add: y_def)
    have "2 \<le> \<lceil>y\<rceil>" using y1 by (simp add: le_ceiling_iff)
    then have n0: "0 < n" by (simp add: n_def)
    have b1: "1 \<le> bitlen n" using n0 by (simp add: bitlen_alt_def)
    note bb = bitlen_bounds [OF n0]
    have be: "binade x = - bitlen n" using False by (simp add: binade_def n_def y_def)
    have ny: "of_int n < y" "y \<le> of_int (n + 1)"
      by (simp_all add: n_def) linarith+
    have "n + 1 \<le> 2 ^ nat (bitlen n)" using bb by simp
    then have "(of_int (n + 1) :: real) \<le> of_int (2 ^ nat (bitlen n))"
      by (simp only: of_int_le_iff)
    moreover have "(of_int (2 ^ nat (bitlen n)) :: real) = 2 ^ nat (bitlen n)" by simp
    ultimately have "y \<le> 2 ^ nat (bitlen n)" using ny(2) by linarith
    then have "1 / \<bar>x\<bar> \<le> 2 ^ nat (bitlen n)" by (simp add: y_def)
    then have "1 / 2 ^ nat (bitlen n) \<le> \<bar>x\<bar>"
      using xp by (simp add: field_simps)
    moreover have "(2::real) powi (- bitlen n) = 1 / 2 ^ nat (bitlen n)"
      using b1 by (intro powi_neg) simp
    ultimately have lo: "2 powi (- bitlen n) \<le> \<bar>x\<bar>" by simp
    have "(of_int (2 ^ nat (bitlen n - 1)) :: real) \<le> of_int n"
      using bb by (simp only: of_int_le_iff)
    moreover have "(of_int (2 ^ nat (bitlen n - 1)) :: real) = 2 ^ nat (bitlen n - 1)" by simp
    ultimately have "2 ^ nat (bitlen n - 1) < y" using ny(1) by linarith
    then have "2 ^ nat (bitlen n - 1) < 1 / \<bar>x\<bar>" by (simp add: y_def)
    then have "\<bar>x\<bar> < 1 / 2 ^ nat (bitlen n - 1)"
      using xp by (simp add: field_simps)
    moreover have "(2::real) powi (- bitlen n + 1) = 1 / 2 ^ nat (bitlen n - 1)"
    proof -
      have "- bitlen n + 1 = - (bitlen n - 1)" by simp
      then show ?thesis using powi_neg [of "bitlen n - 1"] b1 by simp
    qed
    ultimately have hi: "\<bar>x\<bar> < 2 powi (- bitlen n + 1)" by simp
    from lo hi show ?thesis unfolding be by simp
  qed
  then show "2 powi binade x \<le> \<bar>x\<bar>" and "\<bar>x\<bar> < 2 powi (binade x + 1)" by simp_all
qed

lemma binade_eq:
  assumes "2 powi k \<le> \<bar>x\<bar>" and "\<bar>x\<bar> < 2 powi (k + 1)"
  shows "binade x = k"
proof -
  have nz: "x \<noteq> 0"
    using assms(1) by (smt (verit) zero_less_power_int abs_zero)
  note b = binade_bounds [OF nz]
  have "\<not> binade x < k"
  proof
    assume "binade x < k"
    then have "(2::real) powi (binade x + 1) \<le> 2 powi k" by (intro power_int_increasing) simp_all
    with b(2) assms(1) show False by simp
  qed
  moreover have "\<not> k < binade x"
  proof
    assume "k < binade x"
    then have "(2::real) powi (k + 1) \<le> 2 powi binade x" by (intro power_int_increasing) simp_all
    with b(1) assms(2) show False by simp
  qed
  ultimately show ?thesis by simp
qed

lemma binade_log: "x \<noteq> 0 \<Longrightarrow> binade x = \<lfloor>log 2 \<bar>x\<bar>\<rfloor>"
proof -
  assume nz: "x \<noteq> 0"
  then have pos: "0 < \<bar>x\<bar>" by simp
  define k where "k = \<lfloor>log 2 \<bar>x\<bar>\<rfloor>"
  have "of_int k \<le> log 2 \<bar>x\<bar>" by (simp add: k_def)
  then have "2 powr of_int k \<le> \<bar>x\<bar>" using pos by (simp add: le_log_iff)
  then have a: "2 powi k \<le> \<bar>x\<bar>" by (simp add: powr_real_of_int')
  have "log 2 \<bar>x\<bar> < of_int (k + 1)" by (simp add: k_def)
  then have "\<bar>x\<bar> < 2 powr of_int (k + 1)" using pos by (simp add: log_less_iff)
  moreover have "(2::real) powr of_int (k + 1) = 2 powi (k + 1)"
    by (rule powr_real_of_int') simp_all
  ultimately have b: "\<bar>x\<bar> < 2 powi (k + 1)" by simp
  show ?thesis using binade_eq [OF a b] by (simp add: k_def)
qed

lemma binade_mono:
  assumes "0 < x" and "x \<le> y"
  shows "binade x \<le> binade y"
proof (rule ccontr)
  assume "\<not> binade x \<le> binade y"
  then have "binade y + 1 \<le> binade x" by simp
  then have "(2::real) powi (binade y + 1) \<le> 2 powi binade x" by (intro power_int_increasing) simp_all
  moreover have "2 powi binade x \<le> x" using binade_bounds(1) [of x] assms(1) by simp
  moreover have "y < 2 powi (binade y + 1)" using binade_bounds(2) [of y] assms by simp
  ultimately show False using assms(2) by simp
qed

lemma fl_zero: "fl 0 = 0"
  by (simp add: fl_def)

lemma fl_minus: "fl (- x) = - fl x"
  by (simp add: fl_def ulpExponent_def binade_def rne_minus)

lemma fl_mono_pos:
  assumes "0 < x" and "x \<le> y"
  shows "fl x \<le> fl y"
proof -
  have y: "0 < y" using assms by simp
  have bx: "2 powi binade x \<le> x" "x < 2 powi (binade x + 1)"
    using binade_bounds [of x] assms(1) by simp_all
  have "2 powi binade y \<le> y" using binade_bounds [of y] y by simp
  have em: "ulpExponent x \<le> ulpExponent y"
    using binade_mono [OF assms] by (simp add: ulpExponent_def)
  show ?thesis
  proof (cases "ulpExponent x = ulpExponent y")
    case True
    have "x / 2 powi ulpExponent y \<le> y / 2 powi ulpExponent y"
      using assms(2) by (simp add: divide_right_mono)
    then have "rne (x / 2 powi ulpExponent y) \<le> rne (y / 2 powi ulpExponent y)"
      by (rule rne_mono)
    then have "(of_int (rne (x / 2 powi ulpExponent y)) :: real)
                 \<le> of_int (rne (y / 2 powi ulpExponent y))"
      by (simp only: of_int_le_iff)
    then have "of_int (rne (x / 2 powi ulpExponent y)) * 2 powi ulpExponent y
                 \<le> of_int (rne (y / 2 powi ulpExponent y)) * (2::real) powi ulpExponent y"
      by (simp add: mult_right_mono)
    then show ?thesis using True assms(1) y by (simp add: fl_def)
  next
    case False
    with em have lt: "ulpExponent x < ulpExponent y" by simp
    then have ey: "ulpExponent y = binade y - 52" and "binade x - 52 < binade y - 52"
      by (auto simp add: ulpExponent_def max_def split: if_splits)
    then have bb: "binade x + 1 \<le> binade y" by simp
    have "(2::real) powi (binade x + 1) \<le> 2 powi binade y"
      using bb by (simp add: power_int_increasing)
    then have xle: "x \<le> 2 powi binade y" using bx(2) by simp
    have e1: "ulpExponent x \<le> binade y" using lt ey by simp
    have e2: "ulpExponent y \<le> binade y" using ey by simp
    have "fl x \<le> 2 powi binade y"
      using round_le_power [OF e1 xle] assms(1) by (simp add: fl_def)
    moreover have "2 powi binade y \<le> fl y"
      using round_ge_power [OF e2 \<open>2 powi binade y \<le> y\<close>] y by (simp add: fl_def)
    ultimately show ?thesis by simp
  qed
qed

lemma fl_nonneg: "0 \<le> x \<Longrightarrow> 0 \<le> fl x"
proof -
  assume "0 \<le> x"
  then have "0 \<le> rne (x / 2 powi ulpExponent x)"
    using rne_mono [of 0 "x / 2 powi ulpExponent x"] rne_of_int [of 0] by simp
  then show ?thesis by (simp add: fl_def)
qed

lemma fl_mono: "x \<le> y \<Longrightarrow> fl x \<le> fl y"
proof -
  assume le: "x \<le> y"
  consider "0 < x" | "x \<le> 0" "0 \<le> y" | "y < 0" by linarith
  then show ?thesis
  proof cases
    case 1
    then show ?thesis using le by (rule fl_mono_pos)
  next
    case 2
    have "fl (- x) \<ge> 0" using 2(1) by (simp add: fl_nonneg)
    then have "fl x \<le> 0" by (simp add: fl_minus)
    moreover have "0 \<le> fl y" using 2(2) by (rule fl_nonneg)
    ultimately show ?thesis by simp
  next
    case 3
    have "fl (- y) \<le> fl (- x)" using 3 le by (intro fl_mono_pos) simp_all
    then show ?thesis by (simp add: fl_minus)
  qed
qed

lemma fl_binade:
  assumes "2 powi k \<le> \<bar>x\<bar>" and "\<bar>x\<bar> < 2 powi (k + 1)"
  shows "fl x = of_int (rne (x / 2 powi max (k - 52) (- 1074))) * 2 powi max (k - 52) (- 1074)"
proof -
  have "x \<noteq> 0" using assms(1) by (smt (verit) zero_less_power_int abs_zero)
  then show ?thesis
    using binade_eq [OF assms] by (simp add: fl_def ulpExponent_def)
qed

lemma fl_dyadic:
  assumes "2 powi k \<le> \<bar>x\<bar>" and "\<bar>x\<bar> < 2 powi (k + 1)"
    and "x = of_int m * 2 powi max (k - 52) (- 1074)"
  shows "fl x = x"
proof -
  have "x / 2 powi max (k - 52) (- 1074) = of_int m"
    using assms(3) by simp
  then show ?thesis
    using fl_binade [OF assms(1,2)] assms(3) by (simp only: rne_of_int)
qed

text \<open>Evaluating \<open>fl\<close>: on a real whose binade is known, and on reals that are doubles.\<close>

lemma powi_neg_numeral: "(2::real) powi (- numeral n) = 1 / 2 ^ numeral n"
  by (simp add: power_int_minus inverse_eq_divide)

lemma fl_eval:
  assumes "2 powi k \<le> \<bar>x\<bar>" and "\<bar>x\<bar> < 2 powi (k + 1)"
    and "max (k - 52) (- 1074) = e" and "x / 2 powi e = q" and "rne q = n"
    and "of_int n * 2 powi e = y"
  shows "fl x = y"
  using fl_binade [OF assms(1,2)] assms(3-6) by simp

lemma fl_power2:
  assumes "- 1022 \<le> k"
  shows "fl (2 powi k) = 2 powi k"
proof (rule fl_dyadic [where k = k and m = "2 ^ 52"])
  show "(2::real) powi k \<le> \<bar>2 powi k\<bar>" by simp
  show "\<bar>(2::real) powi k\<bar> < 2 powi (k + 1)" by (simp add: power_int_add)
  have "max (k - 52) (- 1074) = k - 52" using assms by simp
  moreover have "(2::real) powi k = 2 powi 52 * 2 powi (k - 52)"
    by (simp add: power_int_diff)
  ultimately show "(2::real) powi k = of_int (2 ^ 52) * 2 powi max (k - 52) (- 1074)"
    by simp
qed

lemma fl_one: "fl 1 = 1"
  using fl_power2 [of 0] by simp

lemma fl_abs_le:
  assumes "- 1022 \<le> k" and "\<bar>x\<bar> \<le> 2 powi k"
  shows "\<bar>fl x\<bar> \<le> 2 powi k"
proof -
  have "fl x \<le> fl (2 powi k)" using assms(2) by (intro fl_mono) simp
  moreover have "fl (- (2 powi k)) \<le> fl x" using assms(2) by (intro fl_mono) simp
  ultimately show ?thesis by (simp add: fl_minus fl_power2 [OF assms(1)])
qed

lemma fl_exact:
  assumes "2 powi k \<le> \<bar>x\<bar>" and "\<bar>x\<bar> < 2 powi (k + 1)" and "- 1022 \<le> k"
    and "x * 2 powi (52 - k) = of_int m"
  shows "fl x = x"
proof (rule fl_dyadic [OF assms(1,2), where m = m])
  have e: "max (k - 52) (- 1074) = k - 52" using assms(3) by simp
  have "x = (x * 2 powi (52 - k)) * 2 powi (k - 52)"
    by (simp add: power_int_diff)
  then show "x = of_int m * 2 powi max (k - 52) (- 1074)"
    unfolding e assms(4) .
qed

lemma fl_of_int:
  assumes "\<bar>n\<bar> < 2 ^ 53"
  shows "fl (of_int n) = of_int n"
proof (cases "n = 0")
  case True
  then show ?thesis by (simp add: fl_zero)
next
  case False
  define k where "k = binade (of_int n)"
  have nz: "(of_int n :: real) \<noteq> 0" using False by simp
  note b = binade_bounds [OF nz, folded k_def]
  have k0: "0 \<le> k"
  proof (rule ccontr)
    assume "\<not> 0 \<le> k"
    then have "k + 1 \<le> 0" by simp
    then have "(2::real) powi (k + 1) \<le> 2 powi 0" by (intro power_int_increasing) simp_all
    with b(2) have "\<bar>of_int n :: real\<bar> < 1" by simp
    then have "\<bar>n\<bar> < 1" by linarith
    with False show False by simp
  qed
  have k52: "k \<le> 52"
  proof (rule ccontr)
    assume "\<not> k \<le> 52"
    then have "53 \<le> k" by simp
    then have "(2::real) powi 53 \<le> 2 powi k" by (intro power_int_increasing) simp_all
    with b(1) have "(2::real) ^ 53 \<le> \<bar>of_int n\<bar>" by simp
    then have "(2::int) ^ 53 \<le> \<bar>n\<bar>"
      by (metis of_int_abs of_int_le_iff of_int_numeral of_int_power)
    with assms show False by simp
  qed
  have "(2::real) powi (52 - k) = of_int (2 ^ nat (52 - k))"
    using k52 by (simp add: power_int_def)
  then have "of_int n * (2::real) powi (52 - k) = of_int (n * 2 ^ nat (52 - k))"
    by simp
  then show ?thesis
    using b k0 by (intro fl_exact [where k = k and m = "n * 2 ^ nat (52 - k)"]) simp_all
qed

lemma fl_numeral: "numeral w < (2::int) ^ 53 \<Longrightarrow> fl (numeral w) = numeral w"
  using fl_of_int [of "numeral w"] by simp

lemma fl_neg_numeral: "numeral w < (2::int) ^ 53 \<Longrightarrow> fl (- numeral w) = - numeral w"
  using fl_of_int [of "- numeral w"] by simp

lemma fl_quarter: "fl (1/4) = 1/4"
  by (rule fl_exact [where k = "- 2" and m = "2 ^ 52"]) (simp_all add: powi_neg_numeral)

lemma fl_half: "fl (1/2) = 1/2"
  by (rule fl_exact [where k = "- 1" and m = "2 ^ 52"]) (simp_all add: powi_neg_numeral)

lemma fl_dbl003: "fl dbl003 = dbl003"
  unfolding dbl003_def
  by (rule fl_exact [where k = "- 6" and m = 8646911284551352]) (simp_all add: powi_neg_numeral)

lemma fl_dbl03: "fl dbl03 = dbl03"
  unfolding dbl03_def
  by (rule fl_exact [where k = "- 2" and m = 5404319552844595]) (simp_all add: powi_neg_numeral)

lemma fl_span: "fl (dbl03 - dbl003) = dblSpan"
  unfolding dbl03_def dbl003_def dblSpan_def
  by (rule fl_eval [where k = "- 2" and e = "- 54" and q = "9727775195120271 / 2"
        and n = 4863887597560136])
     (simp_all add: powi_neg_numeral rne_def)

lemma fl_span_exact: "fl dblSpan = dblSpan"
  unfolding dblSpan_def
  by (rule fl_exact [where k = "- 2" and m = 4863887597560136]) (simp_all add: powi_neg_numeral)

lemma fl_top: "fl (dbl003 + dblSpan) = dbl03next"
  unfolding dbl03next_def dbl003_def dblSpan_def
  by (rule fl_eval [where k = "- 2" and e = "- 54" and q = "10808639105689191 / 2"
        and n = 5404319552844596])
     (simp_all add: powi_neg_numeral rne_def)

text \<open>
  What \<open>fl\<close> is. The doubles are the reals \<open>n * 2^e\<close> with \<open>|n| \<le> 2^53\<close> and \<open>e \<ge> -1074\<close> (the
  exponent is not bounded above: overflow is the business of \<open>js_round\<close>); \<open>fl\<close> fixes them,
  its result is one of them, and no double is nearer to \<open>x\<close> than \<open>fl x\<close>.
\<close>

lemma powi_le_cancel:
  assumes "(2::real) powi a \<le> 2 powi b"
  shows "a \<le> b"
proof (rule ccontr)
  assume "\<not> a \<le> b"
  then have "b < a" by simp
  then have "(2::real) powi b < 2 powi a" by (intro power_int_strict_increasing) simp_all
  with assms show False by simp
qed

lemma fl_representable:
  assumes n: "\<bar>n\<bar> \<le> 2 ^ 53" and e: "- 1074 \<le> e"
  shows "fl (of_int n * 2 powi e) = of_int n * 2 powi e"
proof (cases "n = 0")
  case True
  then show ?thesis by (simp add: fl_zero)
next
  case False
  define y :: real where "y = of_int n * 2 powi e"
  have ynz: "y \<noteq> 0" using False by (simp add: y_def)
  define k where "k = binade y"
  note b = binade_bounds [OF ynz, folded k_def]
  have ay: "\<bar>y\<bar> = of_int \<bar>n\<bar> * 2 powi e" by (simp add: y_def abs_mult)
  have "(of_int \<bar>n\<bar> :: real) \<le> of_int (2 ^ 53)" using n by (simp only: of_int_le_iff)
  then have "of_int \<bar>n\<bar> * 2 powi e \<le> (2::real) powi 53 * 2 powi e"
    by (intro mult_right_mono) simp_all
  then have yle: "\<bar>y\<bar> \<le> 2 powi (e + 53)" by (simp add: ay power_int_add)
  have k53: "k \<le> e + 53" using b(1) yle by (intro powi_le_cancel) simp
  define u where "u = max (k - 52) (- 1074)"
  have fy: "fl y = y" if "y = of_int m * 2 powi u" for m
    using fl_dyadic [OF b, of m] that by (simp add: u_def)
  show ?thesis
  proof (cases "u \<le> e")
    case True
    have "(2::real) powi e = of_int (2 ^ nat (e - u)) * 2 powi u"
    proof -
      have "(2::real) powi e = 2 powi (e - u) * 2 powi u" by (simp flip: power_int_add)
      moreover have "(2::real) powi (e - u) = 2 ^ nat (e - u)" using True by (simp add: power_int_def)
      ultimately show ?thesis by simp
    qed
    then have "y = of_int (n * 2 ^ nat (e - u)) * 2 powi u" by (simp add: y_def)
    then show ?thesis using fy unfolding y_def by blast
  next
    case False
    then have ue: "u = e + 1" and ke: "k = e + 53"
      using k53 e by (auto simp add: u_def max_def split: if_splits)
    have "(2::real) powi (e + 53) \<le> \<bar>y\<bar>" using b(1) ke by simp
    then have "(2::real) powi 53 * 2 powi e \<le> of_int \<bar>n\<bar> * 2 powi e"
      by (simp add: ay power_int_add)
    then have "(2::real) powi 53 \<le> of_int \<bar>n\<bar>" by simp
    then have "(of_int (2 ^ 53) :: real) \<le> of_int \<bar>n\<bar>" by simp
    then have "2 ^ 53 \<le> \<bar>n\<bar>" by (simp only: of_int_le_iff)
    with n have "\<bar>n\<bar> = 2 ^ 53" by simp
    then have "n = 2 ^ 53 \<or> n = - (2 ^ 53)" by (simp add: abs_if split: if_splits)
    then have "n = 2 * (n div 2)" by auto
    then have "(of_int n :: real) = 2 * of_int (n div 2)"
      by (metis of_int_mult of_int_numeral)
    moreover have "(2::real) powi (e + 1) = 2 * 2 powi e" by (simp add: power_int_add)
    ultimately have "y = of_int (n div 2) * 2 powi u" by (simp add: y_def ue)
    then show ?thesis using fy unfolding y_def by blast
  qed
qed

lemma rne_abs_le:
  assumes "\<bar>q\<bar> \<le> of_int m"
  shows "\<bar>rne q\<bar> \<le> m"
proof -
  have "rne q \<le> rne (of_int m)" using assms by (intro rne_mono) simp
  moreover have "rne (of_int (- m)) \<le> rne q" using assms by (intro rne_mono) simp
  ultimately show ?thesis by (simp only: rne_of_int)
qed

lemma fl_form: "\<exists>n e. \<bar>n\<bar> \<le> 2 ^ 53 \<and> - 1074 \<le> e \<and> fl x = of_int n * 2 powi e"
proof (cases "x = 0")
  case True
  have "\<bar>0::int\<bar> \<le> 2 ^ 53 \<and> - 1074 \<le> (0::int) \<and> fl x = of_int 0 * 2 powi 0"
    using True by (simp add: fl_zero)
  then show ?thesis by blast
next
  case False
  define e where "e = ulpExponent x"
  have e: "- 1074 \<le> e" "binade x - 52 \<le> e" by (simp_all add: e_def ulpExponent_def)
  note b = binade_bounds [OF False]
  have "(2::real) powi (binade x + 1) \<le> 2 powi (e + 53)"
    using e(2) by (intro power_int_increasing) simp_all
  with b(2) have "\<bar>x\<bar> \<le> 2 powi 53 * 2 powi e" by (simp add: power_int_add)
  then have "\<bar>x\<bar> / 2 powi e \<le> 2 powi 53" by (simp add: field_simps)
  then have "\<bar>x / 2 powi e\<bar> \<le> of_int (2 ^ 53)" by simp
  then have "\<bar>rne (x / 2 powi e)\<bar> \<le> 2 ^ 53" by (rule rne_abs_le)
  moreover have "fl x = of_int (rne (x / 2 powi e)) * 2 powi e"
    using False by (simp add: fl_def e_def)
  ultimately show ?thesis using e(1) by blast
qed

lemma fl_idem: "fl (fl x) = fl x"
proof -
  obtain n e where "\<bar>n\<bar> \<le> 2 ^ 53" "- 1074 \<le> e" "fl x = of_int n * 2 powi e"
    using fl_form by blast
  then show ?thesis using fl_representable [of n e] by simp
qed

lemma isDouble_iff:
  "isDouble x \<longleftrightarrow> (\<exists>n e. \<bar>n\<bar> \<le> 2 ^ 53 \<and> - 1074 \<le> e \<and> x = of_int n * 2 powi e)"
proof
  assume "isDouble x"
  then have "fl x = x" by (simp add: isDouble_def)
  with fl_form [of x] show "\<exists>n e. \<bar>n\<bar> \<le> 2 ^ 53 \<and> - 1074 \<le> e \<and> x = of_int n * 2 powi e"
    by simp
next
  assume "\<exists>n e. \<bar>n\<bar> \<le> 2 ^ 53 \<and> - 1074 \<le> e \<and> x = of_int n * 2 powi e"
  then show "isDouble x" using fl_representable by (auto simp add: isDouble_def)
qed

lemma rne_nearest: "\<bar>q - of_int (rne q)\<bar> \<le> \<bar>q - of_int j\<bar>"
proof -
  define f where "f = \<lfloor>q\<rfloor>"
  define r where "r = q - of_int f"
  have r: "0 \<le> r" "r < 1" by (simp_all add: r_def f_def) linarith
  have n: "\<bar>q - of_int (rne q)\<bar> \<le> r" "\<bar>q - of_int (rne q)\<bar> \<le> 1 - r"
    using r by (auto simp add: rne_def Let_def r_def f_def)
  show ?thesis
  proof (cases "j \<le> f")
    case True
    then have "(of_int j :: real) \<le> of_int f" by (simp only: of_int_le_iff)
    then have "r \<le> \<bar>q - of_int j\<bar>" by (simp add: r_def)
    with n(1) show ?thesis by simp
  next
    case False
    then have "f + 1 \<le> j" by simp
    then have "(of_int (f + 1) :: real) \<le> of_int j" by (simp only: of_int_le_iff)
    then have "1 - r \<le> \<bar>q - of_int j\<bar>" by (simp add: r_def)
    with n(2) show ?thesis by simp
  qed
qed

lemma fl_nearest_grid:
  assumes "x \<noteq> 0"
  shows "\<bar>x - fl x\<bar> \<le> \<bar>x - of_int j * 2 powi ulpExponent x\<bar>"
proof -
  define u :: real where "u = 2 powi ulpExponent x"
  have u: "0 < u" by (simp add: u_def)
  have k: "\<bar>x / u - of_int k\<bar> * u = \<bar>x - of_int k * u\<bar>" for k
  proof -
    have "\<bar>x / u - of_int k\<bar> * u = \<bar>(x / u - of_int k) * u\<bar>" using u by (simp add: abs_mult)
    also have "(x / u - of_int k) * u = x - of_int k * u" using u by (simp add: field_simps)
    finally show ?thesis .
  qed
  have "\<bar>x / u - of_int (rne (x / u))\<bar> \<le> \<bar>x / u - of_int j\<bar>" by (rule rne_nearest)
  then have "\<bar>x / u - of_int (rne (x / u))\<bar> * u \<le> \<bar>x / u - of_int j\<bar> * u"
    using u by (intro mult_right_mono) simp_all
  then have "\<bar>x - of_int (rne (x / u)) * u\<bar> \<le> \<bar>x - of_int j * u\<bar>"
    by (simp only: k)
  moreover have "fl x = of_int (rne (x / u)) * u" using assms by (simp add: fl_def u_def)
  ultimately show ?thesis by (simp only: u_def)
qed

lemma fl_nearest:
  assumes "isDouble d"
  shows "\<bar>x - fl x\<bar> \<le> \<bar>x - d\<bar>"
proof (cases "x = 0")
  case True
  then show ?thesis by (simp add: fl_zero)
next
  case False
  obtain m e' where m: "\<bar>m\<bar> \<le> 2 ^ 53" and e': "- 1074 \<le> e'" and d: "d = of_int m * 2 powi e'"
    using assms by (auto simp add: isDouble_iff)
  define e where "e = ulpExponent x"
  note g = fl_nearest_grid [OF False, folded e_def]
  show ?thesis
  proof (cases "e \<le> e'")
    case True
    have "(2::real) powi e' = 2 powi (e' - e) * 2 powi e" by (simp flip: power_int_add)
    moreover have "(2::real) powi (e' - e) = 2 ^ nat (e' - e)" using True by (simp add: power_int_def)
    ultimately have "d = of_int (m * 2 ^ nat (e' - e)) * 2 powi e" by (simp add: d)
    then show ?thesis using g [of "m * 2 ^ nat (e' - e)"] by (simp only:)
  next
    case False
    then have lt: "e' + 1 \<le> e" by simp
    with e' have "e = binade x - 52" by (auto simp add: e_def ulpExponent_def max_def split: if_splits)
    then have be: "binade x = e + 52" by simp
    define B :: real where "B = 2 powi (e + 52)"
    have Bx: "B \<le> \<bar>x\<bar>" using binade_bounds(1) [OF \<open>x \<noteq> 0\<close>] by (simp add: B_def be)
    have "(of_int \<bar>m\<bar> :: real) \<le> of_int (2 ^ 53)" using m by (simp only: of_int_le_iff)
    then have "of_int \<bar>m\<bar> * 2 powi e' \<le> (2::real) powi 53 * 2 powi e'"
      by (intro mult_right_mono) simp_all
    then have "\<bar>d\<bar> \<le> 2 powi (e' + 53)" by (simp add: d abs_mult power_int_add)
    moreover have "(2::real) powi (e' + 53) \<le> 2 powi (e + 52)"
      using lt by (intro power_int_increasing) simp_all
    ultimately have dB: "\<bar>d\<bar> \<le> B" by (simp add: B_def)
    have Bg: "B = of_int (2 ^ 52) * 2 powi e" by (simp add: B_def power_int_add)
    have g1: "\<bar>x - fl x\<bar> \<le> \<bar>x - B\<bar>" using g [of "2 ^ 52"] by (simp only: Bg)
    have "- B = of_int (- (2 ^ 52)) * 2 powi e" by (simp add: Bg)
    then have g2: "\<bar>x - fl x\<bar> \<le> \<bar>x - (- B)\<bar>" using g [of "- (2 ^ 52)"] by (simp only:)
    show ?thesis
    proof (cases "0 < x")
      case True
      then have "\<bar>x - B\<bar> \<le> \<bar>x - d\<bar>" using Bx dB by linarith
      with g1 show ?thesis by simp
    next
      case False
      then have "\<bar>x - (- B)\<bar> \<le> \<bar>x - d\<bar>" using Bx dB \<open>x \<noteq> 0\<close> by linarith
      with g2 show ?thesis by simp
    qed
  qed
qed

lemma isDouble_fl: "isDouble (fl x)"
  by (simp add: isDouble_def fl_idem)

text \<open>\<open>js_round\<close> away from the overflow threshold.\<close>

lemma fl_abs_le_double:
  assumes "\<bar>x\<bar> \<le> b" and "fl b = b"
  shows "\<bar>fl x\<bar> \<le> b"
proof -
  have "fl x \<le> fl b" using assms(1) by (intro fl_mono) simp
  moreover have "fl (- b) \<le> fl x" using assms(1) by (intro fl_mono) simp
  ultimately show ?thesis by (simp add: fl_minus assms(2))
qed

lemma js_round_Fin:
  assumes "\<bar>fl x\<bar> < 2 ^ 1024"
  shows "js_round (Fin x) = Fin (fl x)"
  using assms by (auto simp add: js_round_def)

lemma js_round_to:
  assumes "fl x = y" and "\<bar>y\<bar> < 2 ^ 1024"
  shows "js_round (Fin x) = Fin y"
  using js_round_Fin [of x] assms by simp

lemma js_round_exact:
  assumes "fl x = x" and "\<bar>x\<bar> < 2 ^ 1024"
  shows "js_round (Fin x) = Fin x"
  using js_round_Fin [of x] assms by simp

lemma js_round_special: "js_round PInf = PInf" "js_round NInf = NInf" "js_round NaN = NaN"
  by (simp_all add: js_round_def)

subsection \<open>Curves and interpolation\<close>

text \<open>
  On a bounded range the interpolation of \<^verbatim>\<open>updateAudio\<close> is the formula \<open>mapped\<close>, no
  operation overflows, and rounding keeps the order of the results; \<^verbatim>\<open>applyCurve\<close> is the
  function \<open>curved\<close> on the unit interval.
\<close>

lemma interpolate_mapped:
  assumes r: "boundedRange r lo hi" and c: "0 \<le> c" "c \<le> 1"
  shows "interpolate r (Fin c) = Fin (mapped lo hi c)"
    and "lo \<le> mapped lo hi c" and "mapped lo hi c \<le> mapped lo hi 1"
proof -
  from r have mn: "min_val r = Fin lo" and mx: "max_val r = Fin hi" and le: "lo \<le> hi"
    and dl: "fl lo = lo" and bl: "\<bar>lo\<bar> \<le> 2 powi 1022" and bh: "\<bar>hi\<bar> \<le> 2 powi 1022"
    by (simp_all add: boundedRange_def isDouble_def)
  define d where "d = fl (hi - lo)"
  define z where "z = fl (c * d)"
  have p: "(2::real) powi 1023 = 2 * 2 powi 1022" "(2::real) ^ 1024 = 4 * 2 powi 1022"
    by simp_all
  have pos: "(0::real) < 2 powi 1022" by simp
  have t: "fl (3 * 2 powi 1022) = 3 * 2 powi 1022"
  proof (rule fl_exact [where k = 1023 and m = "3 * 2 ^ 51"])
    show "(2::real) powi 1023 \<le> \<bar>3 * 2 powi 1022\<bar>" unfolding p using pos by simp
    show "\<bar>3 * (2::real) powi 1022\<bar> < 2 powi (1023 + 1)"
      using pos by (simp add: power_int_add)
    show "- 1022 \<le> (1023::int)" by simp
    have "(2::real) powi 1022 * 2 powi (52 - 1023) = 2 powi 51"
      by (simp flip: power_int_add)
    then show "3 * 2 powi 1022 * 2 powi (52 - 1023) = real_of_int (3 * 2 ^ 51)"
      by simp
  qed
  have d0: "0 \<le> d" unfolding d_def using le by (intro fl_nonneg) simp
  have "\<bar>hi - lo\<bar> \<le> 2 powi 1023" using bl bh unfolding p by linarith
  then have d1: "\<bar>d\<bar> \<le> 2 powi 1023" unfolding d_def by (intro fl_abs_le) simp_all
  have cd: "0 \<le> c * d" "c * d \<le> d" using c d0 by (simp_all add: mult_left_le_one_le)
  have z0: "0 \<le> z" unfolding z_def using cd(1) by (rule fl_nonneg)
  have "\<bar>c * d\<bar> \<le> 2 powi 1023" using cd d1 by linarith
  then have z1: "\<bar>z\<bar> \<le> 2 powi 1023" unfolding z_def by (intro fl_abs_le) simp_all
  have "\<bar>lo + z\<bar> \<le> 3 * 2 powi 1022" using bl z1 unfolding p by linarith
  then have y1: "\<bar>fl (lo + z)\<bar> \<le> 3 * 2 powi 1022" using t by (rule fl_abs_le_double)
  have "\<bar>d\<bar> < 2 ^ 1024" using d1 pos unfolding p by linarith
  then have s1: "js_round (Fin (hi - lo)) = Fin d"
    unfolding d_def by (rule js_round_Fin)
  have "\<bar>z\<bar> < 2 ^ 1024" using z1 pos unfolding p by linarith
  then have s2: "js_round (Fin (c * d)) = Fin z"
    unfolding z_def by (rule js_round_Fin)
  have "\<bar>fl (lo + z)\<bar> < 2 ^ 1024" using y1 pos unfolding p by linarith
  then have s3: "js_round (Fin (lo + z)) = Fin (fl (lo + z))"
    by (rule js_round_Fin)
  show "interpolate r (Fin c) = Fin (mapped lo hi c)"
    unfolding interpolate_def add64_def mul64_def sub64_def mn mx
    by (simp add: js_sub_def s1 s2 s3 mapped_def flip: d_def z_def)
  have "fl lo \<le> fl (lo + z)" using z0 by (intro fl_mono) simp
  then show "lo \<le> mapped lo hi c" by (simp add: dl mapped_def d_def z_def)
  have "fl (c * d) \<le> fl (1 * d)" using cd(2) by (intro fl_mono) simp
  then have "fl (lo + fl (c * d)) \<le> fl (lo + fl (1 * d))" by (intro fl_mono) simp
  then show "mapped lo hi c \<le> mapped lo hi 1" by (simp add: mapped_def d_def)
qed

lemma mapped_one:
  assumes "isDouble hi" "isDouble (hi - lo)"
  shows "mapped lo hi 1 = hi"
  using assms by (simp add: mapped_def isDouble_def)

lemma interpolate_within:
  assumes r: "boundedRange r lo hi" and c: "0 \<le> c" "c \<le> 1"
  shows "roundedWithin lo hi (mapped lo hi c)"
  using interpolate_mapped(2,3) [OF r c] mapped_one [of hi lo]
  by (auto simp add: roundedWithin_def)

lemma applyCurve_curved:
  assumes "0 \<le> t" "t \<le> 1" "1/10 \<le> e" "e \<le> 5"
  shows "applyCurve (Fin t) (Fin e) = Fin (curved t e)"
    and "0 \<le> curved t e" and "curved t e \<le> 1"
proof -
  have cl: "js_max (Fin 0) (js_min (Fin 1) (Fin t)) = Fin t"
    using assms by (simp add: js_max_def js_min_def)
  have k: "clamp01 t = t" using assms by (simp add: clamp01_def)
  have b: "0 \<le> t powr e" "t powr e \<le> 1" using assms by (simp_all add: powr_le1)
  have f0: "0 \<le> fl (t powr e)" using b(1) by (rule fl_nonneg)
  have "fl (t powr e) \<le> fl 1" using b(2) by (rule fl_mono)
  then have f1: "fl (t powr e) \<le> 1" by (simp add: fl_one)
  have rd: "js_round (Fin (t powr e)) = Fin (fl (t powr e))"
    using f0 f1 by (intro js_round_Fin) simp
  show "0 \<le> curved t e" "curved t e \<le> 1"
    using assms f0 f1 by (simp_all add: curved_def k)
  show "applyCurve (Fin t) (Fin e) = Fin (curved t e)"
  proof (cases "e = 1")
    case True
    then show ?thesis by (simp add: applyCurve_def cl curved_def k)
  next
    case False
    have "pow_exact (Fin t) (Fin e) = Fin (t powr e)" using assms by simp
    with False rd show ?thesis by (simp add: applyCurve_def cl curved_def k js_pow_def)
  qed
qed

lemma clamp_Fin: "js_max (Fin 20) (js_min (Fin 20000) (Fin v)) = Fin (max 20 (min 20000 v))"
  by (simp add: js_max_def js_min_def max_def min_def)


lemma js_div_NaN_right: "js_div a NaN = NaN"
  by (cases a) simp_all

section \<open>C1: one hand and the two endpoints\<close>




section \<open>C2: a grabbed endpoint\<close>




section \<open>C3: an idle endpoint\<close>




section \<open>C4: the frequency handed to the synthesizer\<close>




section \<open>C5: degenerate time steps\<close>

text \<open>
  C5, as stated: the velocity is 0 whenever the time step is at most 0 or is not finite,
  and is the difference quotient otherwise. Counterexample: the guard of
  \<^verbatim>\<open>computeTensionVelocity\<close> is the single comparison \<^verbatim>\<open>deltaTime <= 0\<close>, which is false for
  \<^verbatim>\<open>NaN\<close>; there the division is carried out and the result is \<^verbatim>\<open>NaN\<close>, not 0.
\<close>

theorem C5_nan_step_counterexample:
  "computeTensionVelocity (Fin (1/2)) (Fin (1/10)) NaN = NaN
   \<and> computeTensionVelocity (Fin (1/2)) (Fin (1/10)) NaN \<noteq> Fin 0"
  by (simp add: computeTensionVelocity_def js_sub_def)

text \<open>
  C5, amended: the velocity is 0 for every time step that compares at most 0 (negative
  infinity included); for a finite positive step and finite tensions it is
  \<open>(tension - previousTension) / deltaTime\<close>; for a positively infinite step and finite
  tensions it is 0 as well; a \<^verbatim>\<open>NaN\<close> step is not caught and yields \<^verbatim>\<open>NaN\<close>.
\<close>

theorem C5_tension_velocity:
  "(js_le dt (Fin 0) \<longrightarrow> computeTensionVelocity cur prev dt = Fin 0)
   \<and> (0 < d \<longrightarrow> computeTensionVelocity (Fin t) (Fin p) (Fin d) = Fin ((t - p) / d))
   \<and> computeTensionVelocity (Fin t) (Fin p) PInf = Fin 0
   \<and> computeTensionVelocity cur prev NaN = NaN"
  by (simp add: computeTensionVelocity_def js_sub_def js_div_NaN_right)

text \<open>
  Witness for C5, amended: a step of negative infinity gives 0; tensions 0.1 and 0.5 one
  sixtieth of a second apart give 24.
\<close>

theorem C5_tension_velocity_witness:
  "js_le NInf (Fin 0) \<and> computeTensionVelocity (Fin 1) (Fin 0) NInf = Fin 0
   \<and> (0::real) < 1/60
   \<and> computeTensionVelocity (Fin (1/2)) (Fin (1/10)) (Fin (1/60)) = Fin 24"
  using C5_tension_velocity [of NInf "Fin 1" "Fin 0" "1/60" "1/2" "1/10"]
  by simp

section \<open>C6: pluck detection\<close>




section \<open>C7: debounced release of the pinch\<close>

text \<open>
  C7: in every frame with a video element, for every hand of the frame that has a
  fingertip (index \<open>i\<close>), let \<open>pd\<close> be its pinch record before the frame and \<open>raw\<close> its raw
  pinch in the frame. After the frame the hand has a record \<open>pd'\<close> and the frame has a tip
  \<open>t\<close> for it such that: when the raw pinch is true the release time is cleared (and the
  effective pinch is true); when the raw pinch is false and the hand was pinching, the
  release time is recorded as the current time unless one is already recorded; when the
  raw pinch is false and the hand was not pinching the release time is left as it is; and
  when the raw pinch is false the effective pinch is true exactly when the hand controls
  a grabbed endpoint and less than 150 ms have passed since the recorded release time.
\<close>

theorem C7_debounce:
  assumes video: "video \<noteq> None" and i: "i < length hands"
      and tip: "stringTip (hands ! i) = Some tip"
      and pd: "pd = pinchRecord (pinchStates st) i"
      and raw: "raw = getPinchState (hands ! i) video canvas (state pd)"
      and tips: "tips = handTipsOf now video canvas hands st"
      and st': "st' = draw video canvas now hands st"
  shows "\<exists>pd' t. pinchStates st' i = Some pd' \<and> tipOfHand tips i = Some t \<and> state pd' = raw
           \<and> (raw \<longrightarrow> releaseTime pd' = None \<and> isPinched t)
           \<and> (\<not> raw \<and> state pd \<longrightarrow>
                 releaseTime pd' = (if releaseTime pd = None then Some now else releaseTime pd))
           \<and> (\<not> raw \<and> \<not> state pd \<longrightarrow> releaseTime pd' = releaseTime pd)
           \<and> (\<not> raw \<longrightarrow>
                 isPinched t = (controlsEndpoint st i \<and> (\<exists>r. releaseTime pd' = Some r \<and> now - r < 150)))"
proof -
  obtain vx vy where t: "tip = (vx, vy)" by (cases tip)
  from i have ne: "hands \<noteq> []" by auto
  define r where "r = handOutcome now video canvas st i (hands ! i) (pinchStates st)"
  define tp :: HandTip where "tp = \<lparr>px = fst (videoToCanvas vx vy video canvas),
     py = snd (videoToCanvas vx vy video canvas), handId = i, isPinched = snd r\<rparr>"
  have c: "collect now video canvas hands st = collectHands now video canvas st 0 hands (pinchStates st, [])"
    using video ne by (simp add: collect_def)
  from collectHands_spec [of now video canvas st 0 hands "pinchStates st" "[]"]
  obtain new where
    n1: "snd (collect now video canvas hands st) = new" and
    n4: "\<forall>j < length hands. \<forall>vx vy. stringTip (hands ! j) = Some (vx, vy) \<longrightarrow>
           fst (collect now video canvas hands st) j
             = Some (fst (handOutcome now video canvas st j (hands ! j) (pinchStates st)))
           \<and> find (\<lambda>t. handId t = j) new
             = Some \<lparr>px = fst (videoToCanvas vx vy video canvas), py = snd (videoToCanvas vx vy video canvas),
                     handId = j,
                     isPinched = snd (handOutcome now video canvas st j (hands ! j) (pinchStates st))\<rparr>"
    unfolding c by auto
  from n4 i tip t have
    rec: "fst (collect now video canvas hands st) i = Some (fst r)" and
    fnd: "find (\<lambda>t. handId t = i) new = Some tp"
    by (simp_all add: r_def tp_def)
  have tf: "tipOfHand tips i = Some tp"
    using fnd n1 by (simp add: tipOfHand_def tips handTipsOf_def)
  then have "i \<in> activeHandIds tips"
    using find_Some_mem [of "\<lambda>t. handId t = i" tips tp] by (force simp add: tipOfHand_def activeHandIds_def)
  then have ps': "pinchStates st' i = Some (fst r)"
    by (simp add: st' pinchStates_draw rec tips [symmetric])
  note h = handOutcome_props [OF r_def pd raw]
  have ip: "isPinched tp = snd r" by (simp add: tp_def)
  show ?thesis
    using ps' tf h ip by (intro exI [of _ "fst r"] exI [of _ tp]) auto
qed

text \<open>
  Witness for C7: hand 0 controls the grabbed left endpoint and opens (thumb 150 units
  from the index fingertip) at time 1016. The raw pinch is false, the release time 1016
  is recorded, and the effective pinch is still true.
\<close>

theorem C7_debounce_witness:
  "stringTip ([openAt 220 300] ! 0) = Some (29/40, 1/2)
   \<and> state (pinchRecord (pinchStates grabbedAt220) 0)
   \<and> \<not> getPinchState ([openAt 220 300] ! 0) webcam canvas800 True
   \<and> controlsEndpoint grabbedAt220 0
   \<and> (\<exists>pd' t. pinchStates (draw webcam canvas800 1016 [openAt 220 300] grabbedAt220) 0 = Some pd'
             \<and> tipOfHand (handTipsOf 1016 webcam canvas800 [openAt 220 300] grabbedAt220) 0 = Some t
             \<and> releaseTime pd' = Some 1016 \<and> isPinched t)"
proof -
  have v: "webcam \<noteq> None" by (simp add: webcam_def)
  have i: "0 < length [openAt 220 300]" by simp
  have tip: "stringTip ([openAt 220 300] ! 0) = Some (29/40, 1/2)"
    by (simp add: stringTip_def openAt_def handWith_def elemAt_def)
  have pd: "pinchRecord (pinchStates grabbedAt220) 0 = \<lparr>state = True, releaseTime = None\<rparr>"
    by (simp add: pinchRecord_def grabbedAt220_fields)
  have raw: "\<not> getPinchState ([openAt 220 300] ! 0) webcam canvas800 True"
    by (simp add: eval_defs)
  have ctl: "controlsEndpoint grabbedAt220 0"
    by (simp add: controlsEndpoint_def grabbedAt220_fields)
  note inst = C7_debounce [where st = grabbedAt220 and now = 1016 and canvas = canvas800,
      OF v i tip refl refl refl refl]
  from inst raw ctl have
    "\<exists>pd' t. pinchStates (draw webcam canvas800 1016 [openAt 220 300] grabbedAt220) 0 = Some pd'
             \<and> tipOfHand (handTipsOf 1016 webcam canvas800 [openAt 220 300] grabbedAt220) 0 = Some t
             \<and> releaseTime pd' = Some 1016 \<and> isPinched t"
    unfolding pd by auto
  with tip pd raw ctl show ?thesis by simp
qed

section \<open>C8: mapped parameters and their ranges\<close>

text \<open>
  C8, as stated: for every tension in [0, 1] and every curve exponent in [0.1, 5], each
  output parameter mapped as \<open>min + clamp01(tension)^exponent * (max - min)\<close> lies within
  its configured range, bounds included, whenever \<open>min \<le> max\<close>. Four counterexamples, each
  the default configuration with one range replaced.

  \<^item> Distortion over 0.03..0.3 at tension 1 (exponent 1.5): \<open>max - min\<close> falls midway
    between two doubles and rounds up, to the double 0.27; the curved tension is 1, and
    \<open>min\<close> plus that difference falls midway again and rounds up: the distortion amount
    is 0.30000000000000004, the double after \<open>max\<close>.
  \<^item> Filter cutoff over 5..10 at tension 0.5 (exponent 2): the mapped value is 6.25, and
    the clamp to the audible band hands 20 to the filter.
  \<^item> Volume over \<open>-\<infinity>..0\<close> at tension 1: \<open>max - min\<close> is \<open>+\<infinity>\<close>, and \<open>-\<infinity> + 1 * \<infinity>\<close> is \<^verbatim>\<open>NaN\<close>.
  \<^item> Volume over \<open>-2^1023..2^1023\<close> at tension 0: \<open>max - min\<close> overflows to \<open>+\<infinity>\<close>, and
    \<open>0 * \<infinity>\<close> is \<^verbatim>\<open>NaN\<close>.
\<close>

theorem C8_counterexample:
  "isDouble dbl003 \<and> isDouble dbl03
   \<and> orderedRange lastPlaceRange
   \<and> curveExponent (curve_distortion (curves (withDistortion lastPlaceRange)))
   \<and> distortionAmount (updateAudio (controlsWith (Fin 1) (Fin 0)) (Fin 400) (Fin 800)
        (withDistortion lastPlaceRange)) = Fin dbl03next
   \<and> \<not> inRange lastPlaceRange (Fin dbl03next)
   \<and> orderedRange lowRange
   \<and> curveExponent (curve_filterCutoff (curves (withFilterCutoff lowRange)))
   \<and> filterCutoffHz (updateAudio (controlsWith (Fin (1/2)) (Fin 0)) (Fin 400) (Fin 800)
        (withFilterCutoff lowRange)) = Fin 20
   \<and> \<not> inRange lowRange (Fin 20)
   \<and> orderedRange unboundedRange
   \<and> curveExponent (curve_volume (curves (withVolume unboundedRange)))
   \<and> volumeDb (updateAudio (controlsWith (Fin 1) (Fin 0)) (Fin 400) (Fin 800)
        (withVolume unboundedRange)) = NaN
   \<and> orderedRange hugeRange
   \<and> volumeDb (updateAudio (controlsWith (Fin 0) (Fin 0)) (Fin 400) (Fin 800)
        (withVolume hugeRange)) = NaN
   \<and> \<not> inRange unboundedRange NaN \<and> \<not> inRange hugeRange NaN"
proof -
  have d: "isDouble dbl003" "isDouble dbl03"
    by (simp_all add: isDouble_def fl_dbl003 fl_dbl03)
  have o: "orderedRange lastPlaceRange" "\<not> inRange lastPlaceRange (Fin dbl03next)"
    by (simp_all add: orderedRange_def inRange_def lastPlaceRange_def dbl003_def dbl03_def
        dbl03next_def)
  have o': "orderedRange lowRange" "\<not> inRange lowRange (Fin 20)"
    "orderedRange unboundedRange" "\<not> inRange unboundedRange NaN"
    "orderedRange hugeRange" "\<not> inRange hugeRange NaN"
    by (simp_all add: orderedRange_def inRange_def lowRange_def unboundedRange_def hugeRange_def
        huge_def)
  have e: "curveExponent (curve_distortion (curves (withDistortion lastPlaceRange)))"
    "curveExponent (curve_filterCutoff (curves (withFilterCutoff lowRange)))"
    "curveExponent (curve_volume (curves (withVolume unboundedRange)))"
    by (simp_all add: withDistortion_def withFilterCutoff_def withVolume_def audioConfig_def
        curveExponent_def)
  have one: "js_round (Fin 1) = Fin 1" by (rule js_round_exact) (simp_all add: fl_one)
  have zero: "js_round (Fin 0) = Fin 0" by (rule js_round_exact) (simp_all add: fl_zero)
  have c1: "applyCurve (Fin 1) (Fin x) = Fin 1" for x
    by (simp add: applyCurve_def Let_def js_max_def js_min_def js_pow_def one)
  have c0: "applyCurve (Fin 0) (Fin x) = Fin 0" if "0 < x" for x
    using that by (simp add: applyCurve_def Let_def js_max_def js_min_def js_pow_def zero)
  have quarter: "js_round (Fin (1/4)) = Fin (1/4)"
    by (rule js_round_exact [OF fl_quarter]) simp
  have ch: "applyCurve (Fin (1/2)) (Fin 2) = Fin (1/4)"
    by (simp add: applyCurve_def js_max_def js_min_def js_pow_def power2_eq_square quarter)
  have small: "\<bar>dblSpan\<bar> < 2 ^ 1024" "\<bar>dbl03next\<bar> < 2 ^ 1024"
    by (simp_all add: dblSpan_def dbl03next_def)
  have s: "sub64 (Fin dbl03) (Fin dbl003) = Fin dblSpan"
    "mul64 (Fin 1) (Fin dblSpan) = Fin dblSpan"
    "add64 (Fin dbl003) (Fin dblSpan) = Fin dbl03next"
    by (simp_all add: sub64_def mul64_def add64_def js_sub_def
        js_round_to [OF fl_span small(1)] js_round_to [OF fl_span_exact small(1)]
        js_round_to [OF fl_top small(2)])
  have a: "distortionAmount (updateAudio (controlsWith (Fin 1) (Fin 0)) (Fin 400) (Fin 800)
        (withDistortion lastPlaceRange)) = Fin dbl03next"
    by (simp add: updateAudio_def withDistortion_def lastPlaceRange_def controlsWith_def
        audioConfig_def Let_def interpolate_def c1 s)
  have r5: "js_round (Fin 5) = Fin 5" by (rule js_round_exact) (simp_all add: fl_numeral)
  have "fl (5/4) = 5/4"
    by (rule fl_exact [where k = 0 and m = "5 * 2 ^ 50"]) simp_all
  then have r54: "js_round (Fin (5/4)) = Fin (5/4)" by (rule js_round_exact) simp
  have "fl (25/4) = 25/4"
    by (rule fl_exact [where k = 2 and m = "25 * 2 ^ 48"]) simp_all
  then have r254: "js_round (Fin (25/4)) = Fin (25/4)" by (rule js_round_exact) simp
  have f: "sub64 (Fin 10) (Fin 5) = Fin 5" "mul64 (Fin (1/4)) (Fin 5) = Fin (5/4)"
    "add64 (Fin 5) (Fin (5/4)) = Fin (25/4)"
    by (simp_all add: sub64_def mul64_def add64_def js_sub_def r5 r54 r254)
  have b: "filterCutoffHz (updateAudio (controlsWith (Fin (1/2)) (Fin 0)) (Fin 400) (Fin 800)
        (withFilterCutoff lowRange)) = Fin 20"
    by (simp add: updateAudio_def withFilterCutoff_def lowRange_def controlsWith_def
        audioConfig_def Let_def filterCutoffMapped_def interpolate_def ch f js_max_def js_min_def)
  have g: "sub64 (Fin 0) NInf = PInf" "mul64 (Fin 1) PInf = PInf" "add64 NInf PInf = NaN"
    by (simp_all add: sub64_def mul64_def add64_def js_sub_def js_round_special)
  have c: "volumeDb (updateAudio (controlsWith (Fin 1) (Fin 0)) (Fin 400) (Fin 800)
        (withVolume unboundedRange)) = NaN"
    by (simp add: updateAudio_def withVolume_def unboundedRange_def controlsWith_def
        audioConfig_def Let_def interpolate_def c1 g)
  have e1: "2 * huge = 2 powi 1024" by (simp add: huge_def)
  have e2: "fl (2 * huge) = 2 powi 1024" unfolding e1 by (rule fl_power2) simp
  have "(2::real) ^ 1024 \<le> fl (2 * huge)" unfolding e2 by simp
  then have h1: "sub64 (Fin huge) (Fin (- huge)) = PInf"
    by (simp add: sub64_def js_sub_def js_round_def)
  have h: "mul64 (Fin 0) PInf = NaN" "add64 (Fin (- huge)) NaN = NaN"
    by (simp_all add: mul64_def add64_def js_round_special)
  have v: "volumeDb (updateAudio (controlsWith (Fin 0) (Fin 0)) (Fin 400) (Fin 800)
        (withVolume hugeRange)) = NaN"
    by (simp add: updateAudio_def withVolume_def hugeRange_def controlsWith_def
        audioConfig_def Let_def interpolate_def c0 h1 h)
  from d o o' e a b c v show ?thesis by blast
qed

text \<open>
  C8, amended. Let the tension be in [0, 1], the curve exponent \<open>e\<close> in [0.1, 5], and the
  configured range have finite bounds \<open>min \<le> max\<close> of magnitude at most \<open>2^1022\<close>, \<open>min\<close> a
  double. Then volume, distortion amount and reverb wet level are each the double
  \<open>min + c * (max - min)\<close>, every operation rounded to the nearest double, where the curved
  tension \<open>c\<close> is the tension itself for \<open>e = 1\<close> and the rounded power \<open>tension^e\<close> otherwise,
  and \<open>0 \<le> c \<le> 1\<close>. This value is at least \<open>min\<close>, and at most the value that \<open>c = 1\<close> gives;
  it is at most \<open>max\<close> when \<open>max\<close> and \<open>max - min\<close> are doubles, that is when the subtraction is
  exact. The filter cutoff handed to the filter is that same value clamped to 20..20000.
\<close>

theorem C8_mapped_rounded:
  assumes t: "tension controls = Fin t" "0 \<le> t" "t \<le> 1"
      and out: "out = updateAudio controls midpointX canvasWidth config"
      and m: "m = mappings config" and c: "c = curves config"
  shows "(\<forall>lo hi e. boundedRange (volume m) lo hi \<and> curve_volume c = Fin e \<and> 1/10 \<le> e \<and> e \<le> 5 \<longrightarrow>
            volumeDb out = Fin (mapped lo hi (curved t e))
            \<and> roundedWithin lo hi (mapped lo hi (curved t e)))
       \<and> (\<forall>lo hi e. boundedRange (distortion m) lo hi \<and> curve_distortion c = Fin e \<and> 1/10 \<le> e \<and> e \<le> 5 \<longrightarrow>
            distortionAmount out = Fin (mapped lo hi (curved t e))
            \<and> roundedWithin lo hi (mapped lo hi (curved t e)))
       \<and> (\<forall>lo hi e. boundedRange (reverb m) lo hi \<and> curve_reverb c = Fin e \<and> 1/10 \<le> e \<and> e \<le> 5 \<longrightarrow>
            reverbWet out = Fin (mapped lo hi (curved t e))
            \<and> roundedWithin lo hi (mapped lo hi (curved t e)))
       \<and> (\<forall>lo hi e. boundedRange (filterCutoff m) lo hi \<and> curve_filterCutoff c = Fin e \<and> 1/10 \<le> e \<and> e \<le> 5 \<longrightarrow>
            filterCutoffHz out = Fin (max 20 (min 20000 (mapped lo hi (curved t e))))
            \<and> roundedWithin lo hi (mapped lo hi (curved t e)))
       \<and> (\<forall>e. 1/10 \<le> e \<and> e \<le> 5 \<longrightarrow> 0 \<le> curved t e \<and> curved t e \<le> 1)"
proof -
  have k: "interpolate r (applyCurve (Fin t) (Fin e)) = Fin (mapped lo hi (curved t e))
           \<and> roundedWithin lo hi (mapped lo hi (curved t e))"
    if "boundedRange r lo hi" "1/10 \<le> e" "e \<le> 5" for r lo hi e
  proof -
    note a = applyCurve_curved [OF t(2,3) that(2,3)]
    show ?thesis
      using interpolate_mapped(1) [OF that(1) a(2,3)] interpolate_within [OF that(1) a(2,3)]
      by (simp add: a(1))
  qed
  have u: "0 \<le> curved t e \<and> curved t e \<le> 1" if "1/10 \<le> e \<and> e \<le> 5" for e
    using applyCurve_curved(2,3) [OF t(2,3), of e] that by simp
  have v: "volumeDb out = interpolate (volume m) (applyCurve (Fin t) (curve_volume c))"
    and d: "distortionAmount out = interpolate (distortion m) (applyCurve (Fin t) (curve_distortion c))"
    and r: "reverbWet out = interpolate (reverb m) (applyCurve (Fin t) (curve_reverb c))"
    and f: "filterCutoffHz out = js_max (Fin 20) (js_min (Fin 20000)
              (interpolate (filterCutoff m) (applyCurve (Fin t) (curve_filterCutoff c))))"
    by (simp_all add: out m c updateAudio_def Let_def filterCutoffMapped_def t(1))
  have 1: "volumeDb out = Fin (mapped lo hi (curved t e))
           \<and> roundedWithin lo hi (mapped lo hi (curved t e))"
    if "boundedRange (volume m) lo hi \<and> curve_volume c = Fin e \<and> 1/10 \<le> e \<and> e \<le> 5" for lo hi e
    using k [of "volume m" lo hi e] that by (simp add: v)
  have 2: "distortionAmount out = Fin (mapped lo hi (curved t e))
           \<and> roundedWithin lo hi (mapped lo hi (curved t e))"
    if "boundedRange (distortion m) lo hi \<and> curve_distortion c = Fin e \<and> 1/10 \<le> e \<and> e \<le> 5" for lo hi e
    using k [of "distortion m" lo hi e] that by (simp add: d)
  have 3: "reverbWet out = Fin (mapped lo hi (curved t e))
           \<and> roundedWithin lo hi (mapped lo hi (curved t e))"
    if "boundedRange (reverb m) lo hi \<and> curve_reverb c = Fin e \<and> 1/10 \<le> e \<and> e \<le> 5" for lo hi e
    using k [of "reverb m" lo hi e] that by (simp add: r)
  have 4: "filterCutoffHz out = Fin (max 20 (min 20000 (mapped lo hi (curved t e))))
           \<and> roundedWithin lo hi (mapped lo hi (curved t e))"
    if "boundedRange (filterCutoff m) lo hi \<and> curve_filterCutoff c = Fin e \<and> 1/10 \<le> e \<and> e \<le> 5" for lo hi e
    using k [of "filterCutoff m" lo hi e] that by (simp add: f clamp_Fin)
  from 1 2 3 4 u show ?thesis by blast
qed

text \<open>
  Witness for C8, amended: the default configuration (volume -30..0 dB with exponent 0.8,
  distortion 0..0.8 with 1.5, reverb 0..0.5 with 1, filter cutoff 200..8000 Hz with 2) at
  tension 0.5. The volume is within -30..0, the reverb wet level is \<open>0 + 0.5 * 0.5 = 0.25\<close>
  and the filter cutoff is \<open>200 + 0.25 * 7800 = 2150\<close>.
\<close>

theorem C8_mapped_rounded_witness:
  "boundedRange (volume (mappings audioConfig)) (- 30) 0
   \<and> boundedRange (distortion (mappings audioConfig)) 0 (8/10)
   \<and> boundedRange (reverb (mappings audioConfig)) 0 (1/2)
   \<and> boundedRange (filterCutoff (mappings audioConfig)) 200 8000
   \<and> curveExponent (curve_volume (curves audioConfig))
   \<and> curveExponent (curve_distortion (curves audioConfig))
   \<and> curveExponent (curve_reverb (curves audioConfig))
   \<and> curveExponent (curve_filterCutoff (curves audioConfig))
   \<and> (\<exists>v. volumeDb (updateAudio (controlsWith (Fin (1/2)) (Fin 0)) (Fin 400) (Fin 800) audioConfig) = Fin v
          \<and> - 30 \<le> v \<and> v \<le> 0)
   \<and> (\<exists>v. distortionAmount (updateAudio (controlsWith (Fin (1/2)) (Fin 0)) (Fin 400) (Fin 800) audioConfig) = Fin v
          \<and> 0 \<le> v \<and> v \<le> mapped 0 (8/10) 1)
   \<and> reverbWet (updateAudio (controlsWith (Fin (1/2)) (Fin 0)) (Fin 400) (Fin 800) audioConfig) = Fin (1/4)
   \<and> filterCutoffHz (updateAudio (controlsWith (Fin (1/2)) (Fin 0)) (Fin 400) (Fin 800) audioConfig) = Fin 2150"
proof -
  let ?out = "updateAudio (controlsWith (Fin (1/2)) (Fin 0)) (Fin 400) (Fin 800) audioConfig"
  have t: "tension (controlsWith (Fin (1/2)) (Fin 0)) = Fin (1/2)" "(0::real) \<le> 1/2" "(1/2::real) \<le> 1"
    by (simp_all add: controlsWith_def)
  have b: "boundedRange (volume (mappings audioConfig)) (- 30) 0"
    "boundedRange (distortion (mappings audioConfig)) 0 (8/10)"
    "boundedRange (reverb (mappings audioConfig)) 0 (1/2)"
    "boundedRange (filterCutoff (mappings audioConfig)) 200 8000"
    by (simp_all add: audioConfig_def boundedRange_def isDouble_def fl_zero fl_numeral fl_neg_numeral)
  have e: "curveExponent (curve_volume (curves audioConfig))"
    "curveExponent (curve_distortion (curves audioConfig))"
    "curveExponent (curve_reverb (curves audioConfig))"
    "curveExponent (curve_filterCutoff (curves audioConfig))"
    by (simp_all add: audioConfig_def curveExponent_def)
  have cv: "curve_volume (curves audioConfig) = Fin (8/10)"
    "curve_distortion (curves audioConfig) = Fin (3/2)"
    "curve_reverb (curves audioConfig) = Fin 1"
    "curve_filterCutoff (curves audioConfig) = Fin 2"
    by (simp_all add: audioConfig_def)
  note inst = C8_mapped_rounded [where midpointX = "Fin 400" and canvasWidth = "Fin 800"
      and config = audioConfig, OF t refl refl refl]
  from inst b(1) cv(1)
  have v: "volumeDb ?out = Fin (mapped (- 30) 0 (curved (1/2) (8/10)))
           \<and> roundedWithin (- 30) 0 (mapped (- 30) 0 (curved (1/2) (8/10)))"
    by simp
  have "isDouble 0" "isDouble (0 - (- 30))"
    by (simp_all add: isDouble_def fl_zero fl_numeral)
  with v have v': "\<exists>v. volumeDb ?out = Fin v \<and> - 30 \<le> v \<and> v \<le> 0"
    by (simp add: roundedWithin_def)
  from inst b(2) cv(2)
  have "distortionAmount ?out = Fin (mapped 0 (8/10) (curved (1/2) (3/2)))
           \<and> roundedWithin 0 (8/10) (mapped 0 (8/10) (curved (1/2) (3/2)))"
    by simp
  then have d': "\<exists>v. distortionAmount ?out = Fin v \<and> 0 \<le> v \<and> v \<le> mapped 0 (8/10) 1"
    by (simp add: roundedWithin_def)
  from inst b(3) cv(3)
  have "reverbWet ?out = Fin (mapped 0 (1/2) (curved (1/2) 1))" by simp
  then have r': "reverbWet ?out = Fin (1/4)"
    by (simp add: mapped_def curved_def clamp01_def fl_half fl_quarter)
  from inst b(4) cv(4)
  have "filterCutoffHz ?out = Fin (max 20 (min 20000 (mapped 200 8000 (curved (1/2) 2))))" by simp
  then have f': "filterCutoffHz ?out = Fin 2150"
    by (simp add: mapped_def curved_def clamp01_def power2_eq_square fl_quarter fl_numeral)
  from b e v' d' r' f' show ?thesis by blast
qed

section \<open>C9: spring-return easing\<close>

text \<open>
  C9: an endpoint that is Idle after the grab and release stage of a frame is moved by
  that frame to \<open>position + (anchor - position) * 0.15\<close>. Its distance to the anchor is
  then 0.85 times the distance before, hence not larger; it does not overshoot (the new
  position lies between the old one and the anchor: the two partial distances add up to
  the old distance); and over any session in which the endpoint is Idle after every frame
  its distance to the anchor converges to 0. The easing step leaves a Grabbed endpoint
  where it is.
\<close>

theorem C9_easing:
  "(\<not> grabbedOf s (draw video canvas now hands st) \<longrightarrow>
      endOf s (draw video canvas now hands st)
        = \<lparr>px = px (endOf s st) + (px (anchorOf s canvas) - px (endOf s st)) * (15/100),
           py = py (endOf s st) + (py (anchorOf s canvas) - py (endOf s st)) * (15/100)\<rparr>
      \<and> distance (endOf s (draw video canvas now hands st)) (anchorOf s canvas)
          = (85/100) * distance (endOf s st) (anchorOf s canvas)
      \<and> distance (endOf s (draw video canvas now hands st)) (anchorOf s canvas)
          \<le> distance (endOf s st) (anchorOf s canvas)
      \<and> distance (endOf s st) (endOf s (draw video canvas now hands st))
          + distance (endOf s (draw video canvas now hands st)) (anchorOf s canvas)
          = distance (endOf s st) (anchorOf s canvas))
   \<and> ((\<forall>n. \<not> grabbedOf s (stateAt canvas frames st (Suc n))) \<longrightarrow>
        (\<lambda>n. distance (endOf s (stateAt canvas frames st n)) (anchorOf s canvas)) \<longlonglongrightarrow> 0)
   \<and> (grabbedOf s st \<longrightarrow> endOf s (easing canvas st) = endOf s st)"
proof (intro conjI impI)
  assume idle: "\<not> grabbedOf s (draw video canvas now hands st)"
  have e: "endOf s (draw video canvas now hands st) = lerp (endOf s st) (anchorOf s canvas) EASING_FACTOR"
    using draw_side_idle(1) [OF refl idle] .
  show "endOf s (draw video canvas now hands st)
        = \<lparr>px = px (endOf s st) + (px (anchorOf s canvas) - px (endOf s st)) * (15/100),
           py = py (endOf s st) + (py (anchorOf s canvas) - py (endOf s st)) * (15/100)\<rparr>"
    by (simp add: e lerp_def EASING_FACTOR_def)
  show d: "distance (endOf s (draw video canvas now hands st)) (anchorOf s canvas)
          = (85/100) * distance (endOf s st) (anchorOf s canvas)"
    by (simp add: e distance_lerp_target EASING_FACTOR_def)
  show "distance (endOf s (draw video canvas now hands st)) (anchorOf s canvas)
          \<le> distance (endOf s st) (anchorOf s canvas)"
    using distance_nonneg [of "endOf s st" "anchorOf s canvas"] by (simp add: d)
  show "distance (endOf s st) (endOf s (draw video canvas now hands st))
          + distance (endOf s (draw video canvas now hands st)) (anchorOf s canvas)
          = distance (endOf s st) (anchorOf s canvas)"
    by (simp add: e distance_lerp_target distance_lerp_start EASING_FACTOR_def)
next
  assume idle: "\<forall>n. \<not> grabbedOf s (stateAt canvas frames st (Suc n))"
  have "(\<lambda>n. (85/100 :: real) ^ n) \<longlonglongrightarrow> 0"
    by (rule LIMSEQ_realpow_zero) simp_all
  then have "(\<lambda>n. (85/100) ^ n * distance (endOf s st) (anchorOf s canvas)) \<longlonglongrightarrow> 0"
    by (rule tendsto_mult_left_zero)
  then show "(\<lambda>n. distance (endOf s (stateAt canvas frames st n)) (anchorOf s canvas)) \<longlonglongrightarrow> 0"
    by (simp add: idle_session_distance [OF idle])
next
  assume "grabbedOf s st"
  then show "endOf s (easing canvas st) = endOf s st"
    by (simp add: easing_side)
qed

text \<open>
  Witness for C9: the left endpoint is grabbed at (220, 300) and the hand disappears. The
  first frame without hands releases it and eases it to (217, 300); it is Idle after every
  further frame and its distance to the anchor (200, 300) converges to 0. Before the
  release the easing step leaves it at (220, 300).
\<close>

theorem C9_easing_witness:
  "\<not> grabbedOf LeftSide (draw webcam canvas800 2000 [] grabbedAt220)
   \<and> endOf LeftSide (draw webcam canvas800 2000 [] grabbedAt220) = \<lparr>px = 217, py = 300\<rparr>
   \<and> (\<forall>n. \<not> grabbedOf LeftSide (stateAt canvas800 noHands grabbedAt220 (Suc n)))
   \<and> (\<lambda>n. distance (endOf LeftSide (stateAt canvas800 noHands grabbedAt220 n))
             (anchorOf LeftSide canvas800)) \<longlonglongrightarrow> 0
   \<and> grabbedOf LeftSide grabbedAt220
   \<and> endOf LeftSide (easing canvas800 grabbedAt220) = \<lparr>px = 220, py = 300\<rparr>"
proof -
  have g: "grabbedOf LeftSide grabbedAt220" "handIdOf LeftSide grabbedAt220 = Some 0"
    "endOf LeftSide grabbedAt220 = \<lparr>px = 220, py = 300\<rparr>"
    "anchorOf LeftSide canvas800 = \<lparr>px = 200, py = 300\<rparr>"
    by (simp_all add: grabbedAt220_fields leftAnchor_def canvas800_def)
  have idle1: "\<not> grabbedOf LeftSide (draw webcam canvas800 2000 [] grabbedAt220)"
    using g by (simp add: draw_no_tips [OF noHands_tips])
  have idle: "\<forall>n. \<not> grabbedOf LeftSide (stateAt canvas800 noHands grabbedAt220 (Suc n))"
    using g by (intro allI noHands_idle) simp
  from C9_easing [where s = LeftSide and video = webcam and canvas = canvas800 and now = 2000
      and hands = "[]" and st = grabbedAt220 and frames = noHands] idle1 idle g
  show ?thesis by simp
qed

section \<open>C10: the note gate\<close>

text \<open>
  C10: in one audio update, an attack (immediate or scheduled) is issued only when the
  tension exceeds 0.01 and at least one endpoint is grabbed, and it is issued then if no
  note is playing; when that condition fails and a note is playing, the update issues
  exactly one call, the release; so after every update in which the condition fails no
  note is playing: the playing flag is false, and so is the state of the synthesizer when
  the flag agreed with it before the update. After every update the flag is true exactly
  when the condition holds, and it agrees with the synthesizer.
\<close>

theorem C10_gate:
  assumes r: "r = audioStep config controls lg rg midpointX canvasWidth playing"
  shows "(TriggerAttack \<in> set (synthCalls r) \<or> TriggerAttackAt \<in> set (synthCalls r) \<longrightarrow>
            js_gt (tension controls) (Fin (1/100)) \<and> (lg \<or> rg))
       \<and> (gate controls lg rg \<and> \<not> playing \<longrightarrow> TriggerAttack \<in> set (synthCalls r))
       \<and> (\<not> gate controls lg rg \<and> playing \<longrightarrow> synthCalls r = [TriggerRelease])
       \<and> (\<not> gate controls lg rg \<longrightarrow> \<not> isPlaying r \<and> \<not> noteHeld playing (synthCalls r))
       \<and> (isPlaying r \<longleftrightarrow> gate controls lg rg)
       \<and> noteHeld playing (synthCalls r) = isPlaying r"
  by (auto simp add: r audioStep_def gate_def Let_def)

text \<open>
  Witness for C10 on the default configuration: with a note playing and both endpoints
  Idle the update releases the note; with the left endpoint grabbed at tension 0.5 and no
  note playing it attacks.
\<close>

theorem C10_gate_witness:
  "\<not> gate (controlsWith (Fin (1/2)) (Fin 0)) False False
   \<and> synthCalls (audioStep audioConfig (controlsWith (Fin (1/2)) (Fin 0)) False False
        (Fin 400) (Fin 800) True) = [TriggerRelease]
   \<and> \<not> isPlaying (audioStep audioConfig (controlsWith (Fin (1/2)) (Fin 0)) False False
        (Fin 400) (Fin 800) True)
   \<and> gate (controlsWith (Fin (1/2)) (Fin 0)) True False
   \<and> synthCalls (audioStep audioConfig (controlsWith (Fin (1/2)) (Fin 0)) True False
        (Fin 400) (Fin 800) False) = [TriggerAttack]
   \<and> isPlaying (audioStep audioConfig (controlsWith (Fin (1/2)) (Fin 0)) True False
        (Fin 400) (Fin 800) False)"
proof -
  have off: "\<not> gate (controlsWith (Fin (1/2)) (Fin 0)) False False"
    and on: "gate (controlsWith (Fin (1/2)) (Fin 0)) True False"
    by (simp_all add: gate_def controlsWith_def js_gt_def)
  note stop = C10_gate [where config = audioConfig and controls = "controlsWith (Fin (1/2)) (Fin 0)"
      and lg = False and rg = False and midpointX = "Fin 400" and canvasWidth = "Fin 800"
      and playing = True, OF refl]
  note start = C10_gate [where config = audioConfig and controls = "controlsWith (Fin (1/2)) (Fin 0)"
      and lg = True and rg = False and midpointX = "Fin 400" and canvasWidth = "Fin 800"
      and playing = False, OF refl]
  have calls: "synthCalls (audioStep audioConfig (controlsWith (Fin (1/2)) (Fin 0)) True False
        (Fin 400) (Fin 800) False) = [TriggerAttack]"
    by (simp add: audioStep_def controlsWith_def js_gt_def audioConfig_def Let_def)
  from stop start off on calls show ?thesis by blast
qed

end
